theory Spec2Isabelle
  imports Complex_Main "HOL-Library.Word"
begin

section \<open>Jump Point Search on a cost grid\<close>

text \<open>
  A shallow embedding of \<^verbatim>\<open>jump_point_search.cpp\<close>: the methods
  \<^verbatim>\<open>JumpPointSearch::detectForceNeighbor\<close>, \<^verbatim>\<open>JumpPointSearch::jump\<close> and
  \<^verbatim>\<open>JumpPointSearch::plan\<close>.

  The C++ \<^verbatim>\<open>int\<close> values (coordinates, indices) are modelled as \<open>int\<close>: signed
  overflow is undefined in C++ and does not occur for indices within one row of a grid
  whose cell count fits an \<^verbatim>\<open>int\<close>. The \<^verbatim>\<open>double\<close> fields of a node are modelled as
  \<open>real\<close>; no branch of \<^verbatim>\<open>jump\<close> or \<^verbatim>\<open>detectForceNeighbor\<close> reads them. A read of
  the cost array outside its extent (undefined behaviour in C++) and an exhausted recursion
  or iteration budget are results of their own.
\<close>

subsection \<open>Nodes\<close>

text \<open>
  The class \<^verbatim>\<open>Node\<close> is declared outside the two source files. Its six fields are
  taken from its uses: \<^verbatim>\<open>x\<close>, \<^verbatim>\<open>y\<close>, \<^verbatim>\<open>id\<close>, \<^verbatim>\<open>pid\<close>, \<^verbatim>\<open>h_cost\<close> are read and
  written by name, and the constructor takes six arguments.
\<close>

record Node =
  node_x :: int
  node_y :: int
  node_cost :: real
  node_h_cost :: real
  node_id :: int
  node_pid :: int

text \<open>The constructor call \<^verbatim>\<open>Node(x, y, cost, h_cost, id, pid)\<close>.\<close>

definition mkNode :: "int \<Rightarrow> int \<Rightarrow> real \<Rightarrow> real \<Rightarrow> int \<Rightarrow> int \<Rightarrow> Node" where
  "mkNode a b c h i q =
     \<lparr>node_x = a, node_y = b, node_cost = c, node_h_cost = h, node_id = i, node_pid = q\<rparr>"

text \<open>\<^verbatim>\<open>Node(-1, -1, -1, -1, -1, -1)\<close>: the value \<^verbatim>\<open>jump\<close> returns for "no jump point".\<close>

definition sentinel :: Node where
  "sentinel = mkNode (-1) (-1) (-1) (-1) (-1) (-1)"

text \<open>
  Modelled from the spec: \<^verbatim>\<open>Node::operator+\<close> (the class \<^verbatim>\<open>Node\<close> is not in the source
  files). "Step one cell along the motion vector from the current node": the coordinates
  are added. The step costs are added as well and the other fields take the constructor's
  zero; \<^verbatim>\<open>jump\<close> overwrites \<^verbatim>\<open>id\<close>, \<^verbatim>\<open>pid\<close> and \<^verbatim>\<open>h_cost\<close> right after the sum.
\<close>

definition node_add :: "Node \<Rightarrow> Node \<Rightarrow> Node" where
  "node_add a b = mkNode (node_x a + node_x b) (node_y a + node_y b)
                         (node_cost a + node_cost b) 0 0 0"

text \<open>
  Modelled from the spec: \<^verbatim>\<open>Node::operator==\<close>, and with it the hash and the equality of
  the closed list (\<^verbatim>\<open>NodeIdAsHash\<close>, \<^verbatim>\<open>compare_coordinates\<close>), none of which is in the
  source files. "Node equality and hashing depend only on id (i.e., on coordinates),
  never on cost or pid".
\<close>

definition node_eq :: "Node \<Rightarrow> Node \<Rightarrow> bool" where
  "node_eq a b = (node_id a = node_id b)"

subsection \<open>The planner object\<close>

text \<open>
  The fields of \<^verbatim>\<open>GlobalPlanner\<close> that the three methods read: the grid size and the
  obstacle parameters (set by the constructor), and the cost array, start and goal that
  \<^verbatim>\<open>plan\<close> stores before it searches. The cost array holds \<^verbatim>\<open>unsigned char\<close> values.
\<close>

record planner =
  nx :: int
  ny :: int
  lethal_cost :: nat
  factor :: real
  costs :: "8 word list"
  start :: Node
  goal :: Node

text \<open>
  Modelled from the spec: the field \<^verbatim>\<open>ns_\<close> and the method \<^verbatim>\<open>grid2Index\<close> of
  \<^verbatim>\<open>GlobalPlanner\<close> (declared outside the source files). "id: linear index,
  id = y*nx + x"; a node with "id < 0 or id >= nx*ny is invalid".
\<close>

definition ns :: "planner \<Rightarrow> int" where
  "ns p = nx p * ny p"

definition grid2Index :: "planner \<Rightarrow> int \<Rightarrow> int \<Rightarrow> int" where
  "grid2Index p a b = a + nx p * b"

text \<open>
  The obstacle threshold \<^verbatim>\<open>lethal_cost_ * factor_\<close>, a \<^verbatim>\<open>double\<close>. Every finite double is
  a real number, and the theorems below hold for every value of \<open>factor\<close>, so the rounding
  of the product does not matter to them.
\<close>

definition threshold :: "planner \<Rightarrow> real" where
  "threshold p = real (lethal_cost p) * factor p"

datatype error = OutOfBounds | OutOfFuel

text \<open>
  \<^verbatim>\<open>costs_[i] >= lethal_cost_ * factor_\<close>: the read of the cost array at index \<open>i\<close> and
  the comparison. The array has \<open>length (costs p)\<close> cells; a read outside it is
  \<open>Inl OutOfBounds\<close>. The comparison \<^verbatim>\<open>costs_[i] < lethal_cost_ * factor_\<close> is the negation of
  the result.
\<close>

definition blockedAt :: "planner \<Rightarrow> int \<Rightarrow> error + bool" where
  "blockedAt p i =
     (if 0 \<le> i \<and> i < int (length (costs p))
      then Inr (threshold p \<le> real (unat (costs p ! nat i)))
      else Inl OutOfBounds)"

subsection \<open>detectForceNeighbor\<close>

text \<open>
  Sequencing of steps that may fail: the second step runs on the value of the first, and
  an error of the first is the result.
\<close>

definition bindE :: "error + 'a \<Rightarrow> ('a \<Rightarrow> error + 'b) \<Rightarrow> error + 'b" where
  "bindE m f = (case m of Inl e \<Rightarrow> Inl e | Inr v \<Rightarrow> f v)"

text \<open>
  One of the six tests: \<^verbatim>\<open>costs_[i] >= t && costs_[j] < t\<close>. The second read happens
  only when the first comparison holds.
\<close>

definition forcedPair :: "planner \<Rightarrow> int \<Rightarrow> int \<Rightarrow> error + bool" where
  "forcedPair p i j =
     bindE (blockedAt p i) (\<lambda>b.
       if b then bindE (blockedAt p j) (\<lambda>c. Inr (\<not> c)) else Inr False)"

text \<open>\<^verbatim>\<open>if (A) return true; ...rest\<close>: the rest runs only when \<open>A\<close> is false.\<close>

definition orElse :: "error + bool \<Rightarrow> error + bool \<Rightarrow> error + bool" where
  "orElse a b = bindE a (\<lambda>t. if t then Inr True else b)"

definition detectForceNeighbor :: "planner \<Rightarrow> Node \<Rightarrow> Node \<Rightarrow> error + bool" where
  "detectForceNeighbor p point motion =
     (let x = node_x point; y = node_y point;
          x_dir = node_x motion; y_dir = node_y motion
      in
        orElse
          (if x_dir \<noteq> 0 \<and> y_dir = 0 then
             orElse (forcedPair p (grid2Index p x (y + 1)) (grid2Index p (x + x_dir) (y + 1)))
                    (forcedPair p (grid2Index p x (y - 1)) (grid2Index p (x + x_dir) (y - 1)))
           else Inr False)
       (orElse
          (if x_dir = 0 \<and> y_dir \<noteq> 0 then
             orElse (forcedPair p (grid2Index p (x + 1) y) (grid2Index p (x + 1) (y + y_dir)))
                    (forcedPair p (grid2Index p (x - 1) y) (grid2Index p (x - 1) (y + y_dir)))
           else Inr False)
          (if x_dir \<noteq> 0 \<and> y_dir \<noteq> 0 then
             orElse (forcedPair p (grid2Index p (x - x_dir) y)
                                  (grid2Index p (x - x_dir) (y + y_dir)))
                    (forcedPair p (grid2Index p x (y - y_dir))
                                  (grid2Index p (x + x_dir) (y - y_dir)))
           else Inr False)))"

subsection \<open>jump\<close>

text \<open>
  The node \<^verbatim>\<open>new_point\<close> that \<^verbatim>\<open>jump\<close> builds in its first four statements.
\<close>

definition newPoint :: "planner \<Rightarrow> Node \<Rightarrow> Node \<Rightarrow> Node" where
  "newPoint p point motion =
     (let s = node_add point motion in
      s\<lparr>node_id := grid2Index p (node_x s) (node_y s),
        node_pid := node_id point,
        node_h_cost := sqrt (real_of_int ((node_x s - node_x (goal p))\<^sup>2)
                             + real_of_int ((node_y s - node_y (goal p))\<^sup>2))\<rparr>)"

text \<open>
  \<^verbatim>\<open>jump\<close> is recursive without a bound of its own. The first argument after the planner
  is the number of nested activations that are available: an activation that would need
  one more is \<open>Inl OutOfFuel\<close>.
\<close>

fun jump :: "planner \<Rightarrow> nat \<Rightarrow> Node \<Rightarrow> Node \<Rightarrow> error + Node" where
  "jump p 0 point motion = Inl OutOfFuel"
| "jump p (Suc d) point motion =
     (let new_point = newPoint p point motion in
      if node_id new_point < 0 \<or> ns p \<le> node_id new_point then Inr sentinel
      else
        bindE (blockedAt p (node_id new_point)) (\<lambda>blocked.
          if blocked then Inr sentinel
          else if node_eq new_point (goal p) then Inr new_point
          else
            bindE
              (if node_x motion \<noteq> 0 \<and> node_y motion \<noteq> 0 then
                 bindE (jump p d new_point (mkNode (node_x motion) 0 1 0 0 0)) (\<lambda>a.
                   if node_id a \<noteq> - 1 then Inr True
                   else
                     bindE (jump p d new_point (mkNode 0 (node_y motion) 1 0 0 0)) (\<lambda>b.
                       Inr (node_id b \<noteq> - 1)))
               else Inr False)
              (\<lambda>probe.
                 if probe then Inr new_point
                 else
                   bindE (detectForceNeighbor p new_point motion) (\<lambda>forced.
                     if forced then Inr new_point else jump p d new_point motion))))"

subsection \<open>plan\<close>

text \<open>
  The closed list is a \<^verbatim>\<open>std::unordered_set\<close> of nodes whose hash and equality are those
  of \<open>node_eq\<close>. It is modelled as the list of its elements, newest first:
  \<^verbatim>\<open>closed_list.find(n) != closed_list.end()\<close> is \<open>inClosed\<close>, and \<^verbatim>\<open>insert\<close> adds a
  node only when no equal node is in the set.
\<close>

definition inClosed :: "Node list \<Rightarrow> Node \<Rightarrow> bool" where
  "inClosed cl n = list_ex (\<lambda>m. node_eq m n) cl"

definition insertClosed :: "Node \<Rightarrow> Node list \<Rightarrow> Node list" where
  "insertClosed n cl = (if inClosed cl n then cl else n # cl)"

text \<open>
  Modelled from the spec: \<^verbatim>\<open>GlobalPlanner::_convertClosedListToPath\<close> (not in the source
  files). "Given the Closed Set (cell id -> parent id) and the goal's id, follow parent
  links backward, looking up each ancestor node by id inside the Closed Set, until the
  start node (identified by having no valid parent) is reached. Produces the coordinate
  sequence in start->goal order. Fails (empty result) if a parent id cannot be found in
  the Closed Set." A valid id is one in \<open>[0, nx*ny)\<close>. The walk is a loop without a bound
  of its own: the second argument counts the nodes it may visit.
\<close>

definition validId :: "planner \<Rightarrow> int \<Rightarrow> bool" where
  "validId p i = (0 \<le> i \<and> i < ns p)"

definition findById :: "Node list \<Rightarrow> int \<Rightarrow> Node option" where
  "findById cl i = find (\<lambda>n. node_id n = i) cl"

fun walkBack :: "planner \<Rightarrow> nat \<Rightarrow> Node list \<Rightarrow> Node \<Rightarrow> Node list \<Rightarrow> error + Node list" where
  "walkBack p 0 cl cur acc = Inl OutOfFuel"
| "walkBack p (Suc k) cl cur acc =
     (if \<not> validId p (node_pid cur) then Inr (cur # acc)
      else
        (case findById cl (node_pid cur) of
           None \<Rightarrow> Inr []
         | Some parent \<Rightarrow> walkBack p k cl parent (cur # acc)))"

definition convertClosedListToPath ::
    "planner \<Rightarrow> nat \<Rightarrow> Node list \<Rightarrow> Node \<Rightarrow> Node \<Rightarrow> error + Node list" where
  "convertClosedListToPath p k cl st gl =
     (case findById cl (node_id gl) of
        None \<Rightarrow> Inr []
      | Some g \<Rightarrow> walkBack p k cl g [])"

text \<open>The three containers of the search loop; \<open>expand\<close> is the caller's output vector.\<close>

record search =
  open_list :: "Node list"
  closed_list :: "Node list"
  expand :: "Node list"

text \<open>
  The first \<^verbatim>\<open>for\<close> loop of an expansion: one \<^verbatim>\<open>jump\<close> per motion, in the order of
  \<open>motions\<close>; a result that is not the sentinel and not in the closed list gets its
  parent and heuristic cost and is appended to \<^verbatim>\<open>jp_list\<close>.
\<close>

fun jumpPoints ::
    "planner \<Rightarrow> nat \<Rightarrow> Node list \<Rightarrow> Node \<Rightarrow> Node \<Rightarrow> Node list \<Rightarrow> error + Node list" where
  "jumpPoints p d cl current gl [] = Inr []"
| "jumpPoints p d cl current gl (motion # motions) =
     bindE (jump p d current motion) (\<lambda>jp.
       bindE (jumpPoints p d cl current gl motions) (\<lambda>jp_list.
         Inr (if node_id jp \<noteq> - 1 \<and> \<not> inClosed cl jp
              then jp\<lparr>node_pid := node_id current,
                      node_h_cost := sqrt (real_of_int ((node_x jp - node_x gl)\<^sup>2)
                                           + real_of_int ((node_y jp - node_y gl)\<^sup>2))\<rparr>
                   # jp_list
              else jp_list)))"

text \<open>
  The second \<^verbatim>\<open>for\<close> loop: the nodes of \<^verbatim>\<open>jp_list\<close> that are pushed to the open list and
  appended to \<^verbatim>\<open>expand\<close>, in order, up to and including the first one equal to the goal.
\<close>

fun pushed :: "Node \<Rightarrow> Node list \<Rightarrow> Node list" where
  "pushed gl [] = []"
| "pushed gl (jp # jps) = jp # (if node_eq jp gl then [] else pushed gl jps)"

text \<open>
  One iteration of the \<^verbatim>\<open>while\<close> loop, entered with a non-empty open list. The order
  \<^verbatim>\<open>compare_cost\<close> of the priority queue is not in the source files and the spec leaves
  ties open, so the position \<open>j\<close> in the open list of the node that \<^verbatim>\<open>top()\<close> returns is
  an argument: the theorems hold for every choice. The iteration either goes on with new
  containers or returns \<open>(found, path, expand)\<close>.
\<close>

datatype step = Continue search | Return bool "Node list" "Node list"

definition planIter ::
    "planner \<Rightarrow> Node list \<Rightarrow> nat \<Rightarrow> Node \<Rightarrow> Node \<Rightarrow> nat \<Rightarrow> search \<Rightarrow> error + step" where
  "planIter p motions d st gl j s =
     (let i = j mod length (open_list s);
          current = open_list s ! i;
          rest = take i (open_list s) @ drop (Suc i) (open_list s)
      in
        if inClosed (closed_list s) current then Inr (Continue (s\<lparr>open_list := rest\<rparr>))
        else if node_eq current gl then
          bindE (convertClosedListToPath p d (insertClosed current (closed_list s)) st gl)
            (\<lambda>path. Inr (Return True path (expand s)))
        else
          bindE (jumpPoints p d (closed_list s) current gl motions) (\<lambda>jp_list.
            Inr (Continue
              \<lparr>open_list = rest @ pushed gl jp_list,
               closed_list = insertClosed current (closed_list s),
               expand = expand s @ pushed gl jp_list\<rparr>)))"

text \<open>
  The \<^verbatim>\<open>while\<close> loop. The list of choices is its budget: one choice per iteration.
\<close>

fun planLoop ::
    "planner \<Rightarrow> Node list \<Rightarrow> nat \<Rightarrow> Node \<Rightarrow> Node \<Rightarrow> nat list \<Rightarrow> search
       \<Rightarrow> error + bool \<times> Node list \<times> Node list" where
  "planLoop p motions d st gl [] s =
     (if open_list s = [] then Inr (False, [], expand s) else Inl OutOfFuel)"
| "planLoop p motions d st gl (j # js) s =
     (if open_list s = [] then Inr (False, [], expand s)
      else
        bindE (planIter p motions d st gl j s) (\<lambda>r.
          case r of
            Return found path ex \<Rightarrow> Inr (found, path, ex)
          | Continue s' \<Rightarrow> planLoop p motions d st gl js s'))"

text \<open>
  \<^verbatim>\<open>plan(costs, start, goal, expand)\<close>. The motions that \<^verbatim>\<open>getMotion()\<close> returns (not
  in the source files) are an argument. \<open>d\<close> bounds the recursion of \<^verbatim>\<open>jump\<close> and the
  backward walk of the path; \<open>tops\<close> holds the choices of the priority queue.
\<close>

definition plan ::
    "planner \<Rightarrow> Node list \<Rightarrow> nat \<Rightarrow> nat list \<Rightarrow> 8 word list \<Rightarrow> Node \<Rightarrow> Node
       \<Rightarrow> error + bool \<times> Node list \<times> Node list" where
  "plan p motions d tops cs st gl =
     planLoop (p\<lparr>costs := cs, start := st, goal := gl\<rparr>) motions d st gl tops
       \<lparr>open_list = [st], closed_list = [], expand = [st]\<rparr>"

subsection \<open>The grid and the cells that detectForceNeighbor reads\<close>

definition inGrid :: "planner \<Rightarrow> int \<Rightarrow> int \<Rightarrow> bool" where
  "inGrid p a b = (0 \<le> a \<and> a < nx p \<and> 0 \<le> b \<and> b < ny p)"

definition interior :: "planner \<Rightarrow> int \<Rightarrow> int \<Rightarrow> bool" where
  "interior p a b = (1 \<le> a \<and> a \<le> nx p - 2 \<and> 1 \<le> b \<and> b \<le> ny p - 2)"

text \<open>One of the eight unit motions.\<close>

definition unitMotion :: "Node \<Rightarrow> bool" where
  "unitMotion m =
     (\<bar>node_x m\<bar> \<le> 1 \<and> \<bar>node_y m\<bar> \<le> 1 \<and> (node_x m, node_y m) \<noteq> (0, 0))"

text \<open>
  The cells whose indices \<^verbatim>\<open>detectForceNeighbor\<close> computes for a point and a motion, in
  the order of the source: four in the branch that the motion selects.
\<close>

definition neighbourCells :: "Node \<Rightarrow> Node \<Rightarrow> (int \<times> int) list" where
  "neighbourCells point motion =
     (let x = node_x point; y = node_y point;
          x_dir = node_x motion; y_dir = node_y motion
      in
        (if x_dir \<noteq> 0 \<and> y_dir = 0
         then [(x, y + 1), (x + x_dir, y + 1), (x, y - 1), (x + x_dir, y - 1)] else []) @
        (if x_dir = 0 \<and> y_dir \<noteq> 0
         then [(x + 1, y), (x + 1, y + y_dir), (x - 1, y), (x - 1, y + y_dir)] else []) @
        (if x_dir \<noteq> 0 \<and> y_dir \<noteq> 0
         then [(x - x_dir, y), (x - x_dir, y + y_dir), (x, y - y_dir), (x + x_dir, y - y_dir)]
         else []))"

text \<open>All of these indices lie inside the cost array.\<close>

definition readable :: "planner \<Rightarrow> Node \<Rightarrow> Node \<Rightarrow> bool" where
  "readable p point motion =
     list_all (\<lambda>(a, b). 0 \<le> grid2Index p a b \<and> grid2Index p a b < int (length (costs p)))
       (neighbourCells point motion)"

subsection \<open>The forced-neighbour rule as the specification words it\<close>

text \<open>
  "A cell is an obstacle when its cost >= lethal_cost * inflation_factor"; open means a
  cost below it.
\<close>

definition blockedCell :: "planner \<Rightarrow> int \<Rightarrow> int \<Rightarrow> bool" where
  "blockedCell p a b = (threshold p \<le> real (unat (costs p ! nat (grid2Index p a b))))"

definition openCell :: "planner \<Rightarrow> int \<Rightarrow> int \<Rightarrow> bool" where
  "openCell p a b = (real (unat (costs p ! nat (grid2Index p a b))) < threshold p)"

text \<open>
  The six conditions, two for each kind of motion: horizontal (the cell above blocked and
  the cell ahead-and-above open, or the same below), vertical (the rule rotated by 90
  degrees), diagonal (the cell behind in x blocked and the cell behind-in-x, ahead-in-y
  open, or the same with x and y swapped).
\<close>

definition forcedSpec :: "planner \<Rightarrow> int \<Rightarrow> int \<Rightarrow> int \<Rightarrow> int \<Rightarrow> bool" where
  "forcedSpec p x y dx dy =
     ((dx \<noteq> 0 \<and> dy = 0 \<and>
        (blockedCell p x (y + 1) \<and> openCell p (x + dx) (y + 1) \<or>
         blockedCell p x (y - 1) \<and> openCell p (x + dx) (y - 1))) \<or>
      (dx = 0 \<and> dy \<noteq> 0 \<and>
        (blockedCell p (x + 1) y \<and> openCell p (x + 1) (y + dy) \<or>
         blockedCell p (x - 1) y \<and> openCell p (x - 1) (y + dy))) \<or>
      (dx \<noteq> 0 \<and> dy \<noteq> 0 \<and>
        (blockedCell p (x - dx) y \<and> openCell p (x - dx) (y + dy) \<or>
         blockedCell p x (y - dy) \<and> openCell p (x + dx) (y - dy))))"

subsection \<open>Grids used as examples\<close>

text \<open>
  The 3x3 "notch" fixture: the cell \<open>(1, 2)\<close> above the centre is an obstacle, every
  other cell is free.
\<close>

definition notchGrid :: planner where
  "notchGrid = \<lparr>nx = 3, ny = 3, lethal_cost = 253, factor = 1 / 2,
                 costs = [0, 0, 0, 0, 0, 0, 0, 254, 0],
                 start = mkNode 0 1 0 0 3 (- 1), goal = mkNode 2 0 0 0 2 (- 1)\<rparr>"

text \<open>A 3x3 grid whose only obstacle is the cell \<open>(0, 2)\<close>.\<close>

definition wrapGrid :: planner where
  "wrapGrid = \<lparr>nx = 3, ny = 3, lethal_cost = 253, factor = 1 / 2,
                costs = [0, 0, 0, 0, 0, 0, 254, 0, 0],
                start = mkNode 2 0 0 0 2 (- 1), goal = mkNode 2 2 0 0 8 (- 1)\<rparr>"

definition east :: Node where
  "east = mkNode 1 0 1 0 0 0"

definition west :: Node where
  "west = mkNode (- 1) 0 1 0 0 0"


text \<open>
  A grid one cell wide and seven cells high: the cells \<open>(0, 0)\<close>, \<open>(0, 3)\<close> and
  \<open>(0, 6)\<close> are free, the other four are obstacles.
\<close>

definition narrowGrid :: planner where
  "narrowGrid = \<lparr>nx = 1, ny = 7, lethal_cost = 253, factor = 1 / 2,
                  costs = [0, 254, 254, 0, 254, 254, 0],
                  start = mkNode 0 3 0 0 3 (- 1), goal = mkNode 0 6 0 0 6 (- 1)\<rparr>"

text \<open>
  A grid two cells wide and ten cells high whose only obstacle is the cell \<open>(0, 9)\<close>.
\<close>

definition tallGrid :: planner where
  "tallGrid = \<lparr>nx = 2, ny = 10, lethal_cost = 253, factor = 1 / 2,
                costs = [0, 0, 0, 0, 0, 0, 0, 0, 0, 0, 0, 0, 0, 0, 0, 0, 0, 0, 254, 0],
                start = mkNode 0 1 0 0 2 (- 1), goal = mkNode 1 0 0 0 1 (- 1)\<rparr>"



subsection \<open>Runs of the search loop\<close>

text \<open>The node that an iteration with choice \<open>j\<close> pops from the open list.\<close>

definition topOf :: "nat \<Rightarrow> search \<Rightarrow> Node" where
  "topOf j s = open_list s ! (j mod length (open_list s))"

text \<open>
  The iteration with choice \<open>j\<close> expands the node it pops: it reaches the \<^verbatim>\<open>for\<close> loop
  over the motions.
\<close>

definition expandsNode :: "Node \<Rightarrow> nat \<Rightarrow> search \<Rightarrow> bool" where
  "expandsNode gl j s =
     (open_list s \<noteq> [] \<and> \<not> inClosed (closed_list s) (topOf j s) \<and> \<not> node_eq (topOf j s) gl)"

text \<open>
  The containers after the iterations of a list of choices, or the result when one of
  them returns or the open list is empty before the choices are used up.
\<close>

fun runIters ::
    "planner \<Rightarrow> Node list \<Rightarrow> nat \<Rightarrow> Node \<Rightarrow> Node \<Rightarrow> nat list \<Rightarrow> search \<Rightarrow> error + step" where
  "runIters p motions d st gl [] s = Inr (Continue s)"
| "runIters p motions d st gl (j # js) s =
     (if open_list s = [] then Inr (Return False [] (expand s))
      else
        bindE (planIter p motions d st gl j s) (\<lambda>r.
          case r of
            Return found path ex \<Rightarrow> Inr (Return found path ex)
          | Continue s' \<Rightarrow> runIters p motions d st gl js s'))"

text \<open>Every node of a path but the first has the node before it as its parent.\<close>

fun parentChain :: "Node list \<Rightarrow> bool" where
  "parentChain [] = True"
| "parentChain [a] = True"
| "parentChain (a # b # r) = (node_pid b = node_id a \<and> parentChain (b # r))"

text \<open>
  What holds of the open and the closed list throughout a search from \<open>st\<close>: every node
  has a valid id, and every node other than the start has a valid parent id, that of a
  node in the closed list.
\<close>

definition searchInv :: "planner \<Rightarrow> Node \<Rightarrow> search \<Rightarrow> bool" where
  "searchInv p st s =
     (\<forall>n \<in> set (open_list s) \<union> set (closed_list s).
        validId p (node_id n) \<and>
        (n = st \<or> validId p (node_pid n) \<and> (\<exists>m \<in> set (closed_list s). node_id m = node_pid n)))"

text \<open>A 3x3 grid in which only the centre cell is free.\<close>

definition cellGrid :: planner where
  "cellGrid = \<lparr>nx = 3, ny = 3, lethal_cost = 253, factor = 1 / 2,
                costs = [254, 254, 254, 254, 0, 254, 254, 254, 254],
                start = mkNode 1 1 0 0 4 (- 1), goal = mkNode 2 2 0 0 8 (- 1)\<rparr>"

subsection \<open>Outlined grids\<close>

text \<open>
  The caller's contract for the cost array: one cell per grid cell, and (the wrapper's
  \<^verbatim>\<open>_outlineMap\<close>) every cell on the border of the grid is an obstacle.
\<close>

definition wellFormed :: "planner \<Rightarrow> bool" where
  "wellFormed p = (0 < nx p \<and> 0 < ny p \<and> int (length (costs p)) = ns p)"

definition outlined :: "planner \<Rightarrow> bool" where
  "outlined p =
     list_all (\<lambda>b. list_all (\<lambda>a. interior p a b \<or> blockedAt p (grid2Index p a b) = Inr True)
                      [0..nx p - 1])
       [0..ny p - 1]"

text \<open>
  The number of steps from a point to the border of the grid along a motion (along its
  x component when it has one).
\<close>

definition room :: "planner \<Rightarrow> Node \<Rightarrow> Node \<Rightarrow> int" where
  "room p point motion =
     (if 0 < node_x motion then nx p - 1 - node_x point
      else if node_x motion < 0 then node_x point
      else if 0 < node_y motion then ny p - 1 - node_y point
      else node_y point)"

text \<open>
  Every node of the closed list (newest first) other than the start has its parent among
  the older nodes.
\<close>

fun olderParents :: "Node \<Rightarrow> Node list \<Rightarrow> bool" where
  "olderParents st [] = True"
| "olderParents st (c # cl) =
     ((c = st \<or> list_ex (\<lambda>m. node_id m = node_pid c) cl) \<and> olderParents st cl)"

text \<open>
  What holds throughout a search on an outlined grid: the invariant above, the nodes of
  the open list are interior cells, and the closed list holds each id once, parents
  before children.
\<close>

definition totalInv :: "planner \<Rightarrow> Node \<Rightarrow> search \<Rightarrow> bool" where
  "totalInv p st s =
     (searchInv p st s \<and>
      list_all (\<lambda>n. interior p (node_x n) (node_y n)) (open_list s) \<and>
      distinct (map node_id (closed_list s)) \<and>
      olderParents st (closed_list s))"

text \<open>
  A bound on the iterations that a search still needs: each expansion closes one more id
  and pushes at most one node per motion, every other iteration only pops.
\<close>

definition budget :: "planner \<Rightarrow> Node list \<Rightarrow> search \<Rightarrow> nat" where
  "budget p motions s =
     (length motions + 1) * (nat (ns p) - length (closed_list s)) + length (open_list s)"

text \<open>
  A grid of 4 by 3 cells with an obstacle border; its two interior cells \<open>(1, 1)\<close> and
  \<open>(2, 1)\<close> are free.
\<close>

definition pairGrid :: planner where
  "pairGrid = \<lparr>nx = 4, ny = 3, lethal_cost = 253, factor = 1 / 2,
                costs = [254, 254, 254, 254, 254, 0, 0, 254, 254, 254, 254, 254],
                start = mkNode 1 1 0 0 5 (- 1), goal = mkNode 2 1 0 0 6 (- 1)\<rparr>"

text \<open>
  A 5x5 grid without obstacles, with the start in the corner \<open>(0, 0)\<close> and the goal in the
  opposite corner \<open>(4, 4)\<close>.
\<close>

definition freeGrid :: planner where
  "freeGrid = \<lparr>nx = 5, ny = 5, lethal_cost = 253, factor = 1 / 2,
                costs = replicate 25 0,
                start = mkNode 0 0 0 0 0 (- 1), goal = mkNode 4 4 0 0 24 (- 1)\<rparr>"

definition north :: Node where
  "north = mkNode 0 1 1 0 0 0"

section \<open>Proofs\<close>

subsection \<open>Sequencing\<close>

lemma bindE_Inr [simp]: "bindE (Inr v) f = f v"
  by (simp add: bindE_def)

lemma bindE_Inl [simp]: "bindE (Inl e) f = Inl e"
  by (simp add: bindE_def)

lemma bindE_eq_Inr: "bindE m f = Inr r \<longleftrightarrow> (\<exists>v. m = Inr v \<and> f v = Inr r)"
  by (cases m) simp_all

lemma orElse_simps [simp]:
  "orElse (Inr True) b = Inr True" "orElse (Inr False) b = b" "orElse (Inl e) b = Inl e"
  by (simp_all add: orElse_def)

lemma orElse_Inr: "orElse (Inr a) (Inr b) = Inr (a \<or> b)"
  by (cases a) simp_all

subsection \<open>detectForceNeighbor\<close>

lemma blockedAt_in:
  "0 \<le> grid2Index p a b \<Longrightarrow> grid2Index p a b < int (length (costs p)) \<Longrightarrow>
   blockedAt p (grid2Index p a b) = Inr (blockedCell p a b)"
  by (simp add: blockedAt_def blockedCell_def)

lemma forcedPair_in:
  "0 \<le> grid2Index p a b \<Longrightarrow> grid2Index p a b < int (length (costs p)) \<Longrightarrow>
   0 \<le> grid2Index p c d \<Longrightarrow> grid2Index p c d < int (length (costs p)) \<Longrightarrow>
   forcedPair p (grid2Index p a b) (grid2Index p c d)
     = Inr (blockedCell p a b \<and> openCell p c d)"
  by (auto simp add: forcedPair_def blockedAt_in openCell_def blockedCell_def)

lemma forcedPair_first_match:
  "blockedAt p i = Inr True \<Longrightarrow> blockedAt p j = Inr False \<Longrightarrow> forcedPair p i j = Inr True"
  by (simp add: forcedPair_def)

lemma forcedPair_unreadable:
  "blockedAt p i = Inl e \<Longrightarrow> forcedPair p i j = Inl e"
  by (simp add: forcedPair_def)

lemma detect_refines:
  "readable p point motion \<Longrightarrow>
   detectForceNeighbor p point motion =
     Inr (forcedSpec p (node_x point) (node_y point) (node_x motion) (node_y motion))"
  unfolding readable_def neighbourCells_def detectForceNeighbor_def forcedSpec_def Let_def
  by (auto simp add: forcedPair_in orElse_Inr)

lemma detect_first_horizontal:
  "node_x motion \<noteq> 0 \<Longrightarrow> node_y motion = 0 \<Longrightarrow>
   blockedAt p (grid2Index p (node_x point) (node_y point + 1)) = Inr True \<Longrightarrow>
   blockedAt p (grid2Index p (node_x point + node_x motion) (node_y point + 1)) = Inr False \<Longrightarrow>
   detectForceNeighbor p point motion = Inr True"
  by (simp add: detectForceNeighbor_def Let_def forcedPair_first_match)

lemma detect_first_unreadable:
  "neighbourCells point motion = (a, b) # rest \<Longrightarrow>
   blockedAt p (grid2Index p a b) = Inl e \<Longrightarrow>
   detectForceNeighbor p point motion = Inl e"
  unfolding neighbourCells_def detectForceNeighbor_def Let_def
  by (auto simp add: forcedPair_unreadable split: if_splits)

lemma notchGrid_fields:
  "nx notchGrid = 3" "ny notchGrid = 3" "ns notchGrid = 9" "node_id (goal notchGrid) = 2"
  "length (costs notchGrid) = 9"
  by (simp_all add: notchGrid_def ns_def mkNode_def)

lemma notchGrid_blocked:
  "blockedAt notchGrid 0 = Inr False" "blockedAt notchGrid 1 = Inr False"
  "blockedAt notchGrid 2 = Inr False" "blockedAt notchGrid 3 = Inr False"
  "blockedAt notchGrid 4 = Inr False" "blockedAt notchGrid 5 = Inr False"
  "blockedAt notchGrid 6 = Inr False" "blockedAt notchGrid 7 = Inr True"
  "blockedAt notchGrid 8 = Inr False"
  "blockedAt notchGrid 9 = Inl OutOfBounds"
  by (simp_all add: blockedAt_def notchGrid_def threshold_def)

text \<open>
  C2: whenever the four cells of the motion's branch can be read, detectForceNeighbor
  returns exactly the truth value of the six conditions of the specification; and for a
  horizontal motion the first condition alone (the cell above blocked, the cell ahead and
  above open) makes it return true, whatever the other cells are.
\<close>

theorem detectForceNeighbor_six_conditions:
  "(readable p point motion \<longrightarrow>
      detectForceNeighbor p point motion =
        Inr (forcedSpec p (node_x point) (node_y point) (node_x motion) (node_y motion))) \<and>
   (node_x motion \<noteq> 0 \<and> node_y motion = 0 \<and>
    blockedAt p (grid2Index p (node_x point) (node_y point + 1)) = Inr True \<and>
    blockedAt p (grid2Index p (node_x point + node_x motion) (node_y point + 1)) = Inr False
      \<longrightarrow> detectForceNeighbor p point motion = Inr True)"
  using detect_refines [of p point motion] detect_first_horizontal [of motion p point]
  by blast

text \<open>The notch fixture: the centre cell, moving east.\<close>

theorem detectForceNeighbor_notch_witness:
  "readable notchGrid (mkNode 1 1 0 0 4 0) east \<and>
   forcedSpec notchGrid 1 1 1 0 \<and>
   detectForceNeighbor notchGrid (mkNode 1 1 0 0 4 0) east = Inr True \<and>
   blockedAt notchGrid (grid2Index notchGrid 1 2) = Inr True \<and>
   blockedAt notchGrid (grid2Index notchGrid 2 2) = Inr False"
proof -
  have r: "readable notchGrid (mkNode 1 1 0 0 4 0) east"
    by (simp add: readable_def neighbourCells_def east_def mkNode_def grid2Index_def
          notchGrid_fields)
  have b: "blockedAt notchGrid (grid2Index notchGrid 1 2) = Inr True"
          "blockedAt notchGrid (grid2Index notchGrid 2 2) = Inr False"
    by (simp_all add: grid2Index_def notchGrid_fields notchGrid_blocked)
  have e: "node_x east = 1" "node_y east = 0" "node_x (mkNode 1 1 0 0 4 0) = 1"
          "node_y (mkNode 1 1 0 0 4 0) = 1"
    by (simp_all add: east_def mkNode_def)
  note T = detectForceNeighbor_six_conditions [of notchGrid "mkNode 1 1 0 0 4 0" east]
  have d1: "detectForceNeighbor notchGrid (mkNode 1 1 0 0 4 0) east
              = Inr (forcedSpec notchGrid 1 1 1 0)"
    using conjunct1 [OF T] r e by simp
  have d2: "detectForceNeighbor notchGrid (mkNode 1 1 0 0 4 0) east = Inr True"
    using conjunct2 [OF T] b e by simp
  from d1 d2 have "forcedSpec notchGrid 1 1 1 0" by simp
  with r b d2 show ?thesis by simp
qed

subsection \<open>Indices of cells inside and outside the grid\<close>

lemma inGrid_index:
  assumes "inGrid p a b"
  shows "0 \<le> grid2Index p a b \<and> grid2Index p a b < ns p \<and> grid2Index p a b div nx p = b"
proof -
  from assms have a: "0 \<le> a" "a < nx p" and b: "0 \<le> b" "b < ny p"
    by (simp_all add: inGrid_def)
  have "nx p * b + nx p \<le> nx p * ny p"
  proof -
    have "nx p * (b + 1) \<le> nx p * ny p"
      using a b by (intro mult_left_mono) simp_all
    then show ?thesis by (simp add: algebra_simps)
  qed
  moreover have "0 \<le> nx p * b" using a b by simp
  moreover have "(a + nx p * b) div nx p = b" using a by simp
  ultimately show ?thesis using a by (simp add: grid2Index_def ns_def)
qed

lemma outside_index:
  assumes "0 < nx p" "\<not> inGrid p a b"
  shows "grid2Index p a b < 0 \<or> ns p \<le> grid2Index p a b \<or> grid2Index p a b div nx p \<noteq> b"
proof (cases "0 \<le> a \<and> a < nx p")
  case True
  then have d: "grid2Index p a b div nx p = b" by (simp add: grid2Index_def)
  from True assms have "b < 0 \<or> ny p \<le> b" by (auto simp add: inGrid_def)
  then show ?thesis
  proof
    assume "b < 0"
    then have "b + 1 \<le> 0" by simp
    then have "nx p * (b + 1) \<le> 0" using assms(1) by (simp add: mult_le_0_iff)
    then have "a + nx p * b < 0" using True by (simp add: algebra_simps)
    then show ?thesis unfolding grid2Index_def by blast
  next
    assume "ny p \<le> b"
    then have "nx p * ny p \<le> nx p * b" using assms(1) by (intro mult_left_mono) simp_all
    with True show ?thesis unfolding grid2Index_def ns_def by linarith
  qed
next
  case False
  have "grid2Index p a b div nx p \<noteq> b"
  proof
    assume e: "grid2Index p a b div nx p = b"
    have "(a + nx p * b) div nx p = a div nx p + b" using assms(1) by simp
    with e have "a div nx p = 0" by (simp add: grid2Index_def)
    then have "0 \<le> a \<and> a < nx p" using assms(1)
      by (metis div_by_0 mod_div_trivial mod_pos_pos_trivial pos_mod_bound pos_mod_sign
            mult_zero_right add.left_neutral mult_div_mod_eq)
    with False show False by simp
  qed
  then show ?thesis by simp
qed

lemma interior_cells_inGrid:
  "interior p (node_x point) (node_y point) \<Longrightarrow> unitMotion motion \<Longrightarrow>
   (a, b) \<in> set (neighbourCells point motion) \<Longrightarrow> inGrid p a b"
  unfolding neighbourCells_def interior_def unitMotion_def inGrid_def Let_def
  by (auto split: if_splits)

lemma border_cell_outside:
  assumes "inGrid p (node_x point) (node_y point)" "\<not> interior p (node_x point) (node_y point)"
  shows "\<exists>m. unitMotion m \<and> (\<exists>(a, b) \<in> set (neighbourCells point m). \<not> inGrid p a b)"
proof (cases "node_x point = 0")
  case True
  have "unitMotion (mkNode (- 1) 0 1 0 0 0)" by (simp add: unitMotion_def mkNode_def)
  moreover have "(node_x point - 1, node_y point + 1)
                   \<in> set (neighbourCells point (mkNode (- 1) 0 1 0 0 0))"
    by (simp add: neighbourCells_def mkNode_def Let_def)
  moreover have "\<not> inGrid p (node_x point - 1) (node_y point + 1)"
    using True by (simp add: inGrid_def)
  ultimately show ?thesis by blast
next
  case False
  have u: "unitMotion (mkNode 1 0 1 0 0 0)" by (simp add: unitMotion_def mkNode_def)
  have c: "(node_x point + 1, node_y point + 1) \<in> set (neighbourCells point (mkNode 1 0 1 0 0 0))"
          "(node_x point, node_y point + 1) \<in> set (neighbourCells point (mkNode 1 0 1 0 0 0))"
          "(node_x point, node_y point - 1) \<in> set (neighbourCells point (mkNode 1 0 1 0 0 0))"
    by (simp_all add: neighbourCells_def mkNode_def Let_def)
  from assms False
  have "node_x point = nx p - 1 \<or> node_y point = 0 \<or> node_y point = ny p - 1"
    by (auto simp add: inGrid_def interior_def)
  then have "\<not> inGrid p (node_x point + 1) (node_y point + 1) \<or>
             \<not> inGrid p (node_x point) (node_y point + 1) \<or>
             \<not> inGrid p (node_x point) (node_y point - 1)"
    by (auto simp add: inGrid_def)
  with u c show ?thesis by blast
qed

subsection \<open>jump\<close>

lemma newPoint_fields [simp]:
  "node_x (newPoint p point motion) = node_x point + node_x motion"
  "node_y (newPoint p point motion) = node_y point + node_y motion"
  "node_id (newPoint p point motion)
     = grid2Index p (node_x point + node_x motion) (node_y point + node_y motion)"
  "node_pid (newPoint p point motion) = node_id point"
  by (simp_all add: newPoint_def node_add_def mkNode_def Let_def)

lemma mkNode_fields [simp]:
  "node_x (mkNode a b c h i q) = a" "node_y (mkNode a b c h i q) = b"
  "node_id (mkNode a b c h i q) = i" "node_pid (mkNode a b c h i q) = q"
  by (simp_all add: mkNode_def)

lemma sentinel_id [simp]: "node_id sentinel = - 1"
  by (simp add: sentinel_def)

text \<open>The body of \<open>jump\<close> with the let unfolded.\<close>

lemma jump_Suc:
  "jump p (Suc d) point motion =
     (if node_id (newPoint p point motion) < 0 \<or> ns p \<le> node_id (newPoint p point motion)
      then Inr sentinel
      else
        bindE (blockedAt p (node_id (newPoint p point motion))) (\<lambda>blocked.
          if blocked then Inr sentinel
          else if node_eq (newPoint p point motion) (goal p) then Inr (newPoint p point motion)
          else
            bindE
              (if node_x motion \<noteq> 0 \<and> node_y motion \<noteq> 0 then
                 bindE (jump p d (newPoint p point motion) (mkNode (node_x motion) 0 1 0 0 0))
                   (\<lambda>a.
                     if node_id a \<noteq> - 1 then Inr True
                     else
                       bindE
                         (jump p d (newPoint p point motion) (mkNode 0 (node_y motion) 1 0 0 0))
                         (\<lambda>b. Inr (node_id b \<noteq> - 1)))
               else Inr False)
              (\<lambda>probe.
                 if probe then Inr (newPoint p point motion)
                 else
                   bindE (detectForceNeighbor p (newPoint p point motion) motion) (\<lambda>forced.
                     if forced then Inr (newPoint p point motion)
                     else jump p d (newPoint p point motion) motion))))"
  by (simp add: Let_def del: newPoint_fields)

declare jump.simps(2) [simp del]

lemma jump_guard:
  "node_id (newPoint p point motion) < 0 \<or> ns p \<le> node_id (newPoint p point motion) \<or>
   blockedAt p (node_id (newPoint p point motion)) = Inr True \<Longrightarrow>
   jump p (Suc d) point motion = Inr sentinel"
  by (auto simp add: jump_Suc simp del: newPoint_fields)

text \<open>
  Every node that jump returns, other than the sentinel, passed the guard, and lies a
  positive number of steps along the motion.
\<close>

lemma jump_result:
  "jump p d point motion = Inr n \<Longrightarrow>
   n = sentinel \<or>
   (0 \<le> node_id n \<and> node_id n < ns p \<and> blockedAt p (node_id n) = Inr False \<and>
    (\<exists>k\<ge>1. node_x n = node_x point + k * node_x motion \<and>
            node_y n = node_y point + k * node_y motion) \<and>
    node_id n = grid2Index p (node_x n) (node_y n))"
proof (induction d arbitrary: point motion n)
  case 0
  then show ?case by simp
next
  case (Suc d)
  let ?np = "newPoint p point motion"
  have step1: "node_x ?np = node_x point + 1 * node_x motion \<and>
               node_y ?np = node_y point + 1 * node_y motion" by simp
  show ?case
  proof (cases "n = sentinel")
    case True
    then show ?thesis by simp
  next
    case False
    from Suc.prems False
    have rng: "0 \<le> node_id ?np" "node_id ?np < ns p"
      by (auto simp add: jump_Suc split: if_splits simp del: newPoint_fields)
    from Suc.prems False rng
    have blk: "blockedAt p (node_id ?np) = Inr False"
      by (auto simp add: jump_Suc bindE_eq_Inr split: if_splits simp del: newPoint_fields)
    from Suc.prems False rng blk
    have "n = ?np \<or> jump p d ?np motion = Inr n"
      by (auto simp add: jump_Suc bindE_eq_Inr split: if_splits simp del: newPoint_fields)
    then show ?thesis
    proof
      assume "n = ?np"
      have idnp: "node_id ?np = grid2Index p (node_x ?np) (node_y ?np)" by simp
      have "\<exists>k\<ge>1. node_x ?np = node_x point + k * node_x motion \<and>
                  node_y ?np = node_y point + k * node_y motion"
        using step1 by (intro exI [of _ 1]) simp
      with rng blk idnp \<open>n = ?np\<close> show ?thesis by blast
    next
      assume "jump p d ?np motion = Inr n"
      from Suc.IH [OF this] False
      obtain k where k: "1 \<le> k" "node_x n = node_x ?np + k * node_x motion"
          "node_y n = node_y ?np + k * node_y motion"
        and rest: "0 \<le> node_id n" "node_id n < ns p" "blockedAt p (node_id n) = Inr False"
          "node_id n = grid2Index p (node_x n) (node_y n)"
        by auto
      have "1 \<le> k + 1 \<and> node_x n = node_x point + (k + 1) * node_x motion \<and>
            node_y n = node_y point + (k + 1) * node_y motion"
        using k by (simp add: algebra_simps)
      with rest False show ?thesis by blast
    qed
  qed
qed

lemma blockedAt_False_iff:
  "blockedAt p i = Inr False \<longleftrightarrow>
     0 \<le> i \<and> i < int (length (costs p)) \<and> real (unat (costs p ! nat i)) < threshold p"
  by (auto simp add: blockedAt_def)

text \<open>
  C6: a node that jump returns with an id other than -1 has its id in [0, nx*ny), inside
  the cost array, and the cost stored at that id is strictly below the obstacle threshold.
\<close>

theorem jump_never_returns_obstacle:
  "jump p d point motion = Inr n \<Longrightarrow> node_id n \<noteq> - 1 \<Longrightarrow>
   0 \<le> node_id n \<and> node_id n < ns p \<and> node_id n < int (length (costs p)) \<and>
   real (unat (costs p ! nat (node_id n))) < threshold p"
  using jump_result [of p d point motion n] by (auto simp add: blockedAt_False_iff)

lemma notch_jump_east:
  "jump notchGrid 1 (mkNode 0 1 0 0 3 (- 1)) east
     = Inr (newPoint notchGrid (mkNode 0 1 0 0 3 (- 1)) east)"
  unfolding One_nat_def
  by (simp add: jump_Suc node_eq_def detectForceNeighbor_def forcedPair_def grid2Index_def
        east_def notchGrid_fields notchGrid_blocked)

theorem jump_never_returns_obstacle_witness:
  "jump notchGrid 1 (mkNode 0 1 0 0 3 (- 1)) east
     = Inr (newPoint notchGrid (mkNode 0 1 0 0 3 (- 1)) east) \<and>
   node_id (newPoint notchGrid (mkNode 0 1 0 0 3 (- 1)) east) = 4 \<and>
   (4::int) < ns notchGrid \<and> length (costs notchGrid) = 9 \<and>
   real (unat (costs notchGrid ! 4)) < threshold notchGrid"
proof -
  have i: "node_id (newPoint notchGrid (mkNode 0 1 0 0 3 (- 1)) east) = 4"
    by (simp add: grid2Index_def east_def notchGrid_fields)
  have "node_id (newPoint notchGrid (mkNode 0 1 0 0 3 (- 1)) east) \<noteq> - 1"
    unfolding i by simp
  from jump_never_returns_obstacle [OF notch_jump_east this]
  have c: "real (unat (costs notchGrid ! 4)) < threshold notchGrid"
    unfolding i by simp
  have n: "(4::int) < ns notchGrid" "length (costs notchGrid) = 9"
    by (simp_all add: notchGrid_fields)
  from notch_jump_east i n c show ?thesis by (intro conjI)
qed






subsection \<open>Steps across the left and right edge of the grid\<close>

lemma jump_forced:
  assumes "0 \<le> node_id (newPoint p point motion)" "node_id (newPoint p point motion) < ns p"
    and "blockedAt p (node_id (newPoint p point motion)) = Inr False"
    and "node_x motion = 0 \<or> node_y motion = 0"
    and "detectForceNeighbor p (newPoint p point motion) motion = Inr True"
  shows "jump p (Suc d) point motion = Inr (newPoint p point motion)"
  using assms by (auto simp add: jump_Suc simp del: newPoint_fields)

lemma jump_continues:
  assumes "0 \<le> node_id (newPoint p point motion)" "node_id (newPoint p point motion) < ns p"
    and "blockedAt p (node_id (newPoint p point motion)) = Inr False"
    and "\<not> node_eq (newPoint p point motion) (goal p)"
    and "node_x motion = 0 \<or> node_y motion = 0"
    and "detectForceNeighbor p (newPoint p point motion) motion = Inr False"
  shows "jump p (Suc d) point motion = jump p d (newPoint p point motion) motion"
  using assms by (auto simp add: jump_Suc simp del: newPoint_fields)

text \<open>
  C9: jump rejects a stepped-to cell by its linear index alone. Stepping east from the
  last column of a row that is not the last (s = 1), or west from the first column of a
  row that is not the first (s = -1), leaves the grid (x = nx or x = -1), but the index of
  the stepped-to cell is that of the first cell of the next row, or of the last cell of
  the previous row, and lies in [0, nx*ny). jump reads the cost of that cell: it returns
  the sentinel when the cell is an obstacle, returns the out-of-grid cell as a jump point
  when the forced-neighbour test holds there, and continues the walk from it otherwise.
\<close>

theorem jump_row_wraparound:
  assumes "0 < nx p" "s = 1 \<or> s = - 1"
    and "0 \<le> y" "y < ny p" "0 \<le> y + s" "y + s < ny p"
    and "node_x point = (if s = 1 then nx p - 1 else 0)" "node_y point = y"
    and "node_x motion = s" "node_y motion = 0"
    and "np = newPoint p point motion"
  shows "inGrid p (node_x point) (node_y point) \<and> \<not> inGrid p (node_x np) (node_y np) \<and>
         node_x np = (if s = 1 then nx p else - 1) \<and> node_y np = y \<and>
         node_id np = grid2Index p (if s = 1 then 0 else nx p - 1) (y + s) \<and>
         0 \<le> node_id np \<and> node_id np < ns p \<and>
         (blockedAt p (node_id np) = Inr True \<longrightarrow>
            jump p (Suc d) point motion = Inr sentinel) \<and>
         (blockedAt p (node_id np) = Inr False \<and> detectForceNeighbor p np motion = Inr True \<longrightarrow>
            jump p (Suc d) point motion = Inr np) \<and>
         (blockedAt p (node_id np) = Inr False \<and> \<not> node_eq np (goal p) \<and>
          detectForceNeighbor p np motion = Inr False \<longrightarrow>
            jump p (Suc d) point motion = jump p d np motion)"
proof -
  have pt: "inGrid p (node_x point) (node_y point)"
    using assms(1-4,7,8) by (auto simp add: inGrid_def)
  have xy: "node_x np = (if s = 1 then nx p else - 1)" "node_y np = y"
    using assms(2,7-11) by auto
  have out: "\<not> inGrid p (node_x np) (node_y np)"
    using xy assms(2) by (auto simp add: inGrid_def)
  have idx: "node_id np = grid2Index p (if s = 1 then 0 else nx p - 1) (y + s)"
    using assms(2,7-11) by (auto simp add: grid2Index_def algebra_simps)
  have "inGrid p (if s = 1 then 0 else nx p - 1) (y + s)"
    using assms(1,2,5,6) by (auto simp add: inGrid_def)
  from inGrid_index [OF this] idx
  have rng: "0 \<le> node_id np" "node_id np < ns p" by simp_all
  have ax: "node_x motion = 0 \<or> node_y motion = 0" using assms(10) by simp
  have a: "blockedAt p (node_id np) = Inr True \<longrightarrow> jump p (Suc d) point motion = Inr sentinel"
    using jump_guard [of p point motion d] unfolding assms(11) by blast
  have b: "blockedAt p (node_id np) = Inr False \<and> detectForceNeighbor p np motion = Inr True \<longrightarrow>
            jump p (Suc d) point motion = Inr np"
    using jump_forced [of p point motion d] rng ax unfolding assms(11) by blast
  have c: "blockedAt p (node_id np) = Inr False \<and> \<not> node_eq np (goal p) \<and>
          detectForceNeighbor p np motion = Inr False \<longrightarrow>
            jump p (Suc d) point motion = jump p d np motion"
    using jump_continues [of p point motion d] rng ax unfolding assms(11) by blast
  from pt out xy idx rng a b c show ?thesis by (intro conjI)
qed

lemma notch_west_1:
  "detectForceNeighbor notchGrid (newPoint notchGrid (mkNode 0 2 0 0 6 (- 1)) west) west
     = Inr False"
  by (simp add: detectForceNeighbor_def forcedPair_def grid2Index_def west_def
        notchGrid_fields notchGrid_blocked)

lemma notch_west_2:
  "jump notchGrid 1 (newPoint notchGrid (mkNode 0 2 0 0 6 (- 1)) west) west
     = Inr (newPoint notchGrid (newPoint notchGrid (mkNode 0 2 0 0 6 (- 1)) west) west)"
  unfolding One_nat_def
  by (simp add: jump_Suc node_eq_def detectForceNeighbor_def forcedPair_def grid2Index_def
        west_def notchGrid_fields notchGrid_blocked)

text \<open>
  On the notch fixture, the walk west from the cell \<open>(0, 2)\<close> goes on through the cell
  \<open>(-1, 2)\<close>, read as the cell \<open>(2, 1)\<close>, and returns the cell \<open>(-2, 2)\<close> with
  the index of the centre cell.
\<close>

theorem jump_row_wraparound_witness:
  "inGrid notchGrid 0 2 \<and>
   node_x (newPoint notchGrid (mkNode 0 2 0 0 6 (- 1)) west) = - 1 \<and>
   node_id (newPoint notchGrid (mkNode 0 2 0 0 6 (- 1)) west) = 5 \<and>
   jump notchGrid 2 (mkNode 0 2 0 0 6 (- 1)) west
     = Inr (newPoint notchGrid (newPoint notchGrid (mkNode 0 2 0 0 6 (- 1)) west) west) \<and>
   node_x (newPoint notchGrid (newPoint notchGrid (mkNode 0 2 0 0 6 (- 1)) west) west) = - 2 \<and>
   node_id (newPoint notchGrid (newPoint notchGrid (mkNode 0 2 0 0 6 (- 1)) west) west) = 4"
proof -
  let ?pt = "mkNode 0 2 0 0 6 (- 1)"
  let ?np = "newPoint notchGrid ?pt west"
  have w: "node_x west = - 1" "node_y west = 0" by (simp_all add: west_def)
  have h: "0 < nx notchGrid" "(- 1::int) = 1 \<or> (- 1::int) = - 1"
          "(0::int) \<le> 2" "2 < ny notchGrid" "(0::int) \<le> 2 + - 1" "2 + - 1 < ny notchGrid"
          "node_x ?pt = (if (- 1::int) = 1 then nx notchGrid - 1 else 0)" "node_y ?pt = 2"
    by (simp_all add: notchGrid_fields)
  note T = jump_row_wraparound [OF h w refl, of 1]
  have i: "node_id ?np = 5" by (simp add: grid2Index_def w notchGrid_fields)
  have b: "blockedAt notchGrid (node_id ?np) = Inr False" "\<not> node_eq ?np (goal notchGrid)"
    unfolding i node_eq_def by (simp_all add: notchGrid_fields notchGrid_blocked)
  from T b notch_west_1
  have "jump notchGrid (Suc 1) ?pt west = jump notchGrid 1 ?np west" by blast
  then have j: "jump notchGrid 2 ?pt west = Inr (newPoint notchGrid ?np west)"
    by (simp add: notch_west_2 numeral_2_eq_2 del: One_nat_def)
  have g: "inGrid notchGrid 0 2" by (simp add: inGrid_def notchGrid_fields)
  have x: "node_x ?np = - 1" "node_x (newPoint notchGrid ?np west) = - 2"
          "node_id (newPoint notchGrid ?np west) = 4"
    by (simp_all add: w grid2Index_def notchGrid_fields)
  from g x i j show ?thesis by (intro conjI)
qed

lemma wrapGrid_fields:
  "nx wrapGrid = 3" "ny wrapGrid = 3" "ns wrapGrid = 9" "node_id (goal wrapGrid) = 8"
  by (simp_all add: wrapGrid_def ns_def mkNode_def)

lemma wrapGrid_blocked:
  "blockedAt wrapGrid 3 = Inr False" "blockedAt wrapGrid 6 = Inr True"
  "blockedAt wrapGrid 7 = Inr False"
  by (simp_all add: blockedAt_def wrapGrid_def threshold_def)

text \<open>
  C1: for a current node inside the grid and a unit motion, jump is to return the sentinel
  when the cell one step along the motion lies outside the grid. The code departs from
  it: on a 3x3 grid whose only obstacle is the cell \<open>(0, 2)\<close>, the step east from the
  in-grid cell \<open>(2, 0)\<close> leads to \<open>(3, 0)\<close>, outside the grid (x >= nx), and yet
  jump returns that cell with id 3, not the sentinel. (When the index of the stepped-to
  cell is outside [0, nx*ny), or the cost at that index is an obstacle's, jump does return
  the sentinel: lemma \<open>jump_guard\<close>.)
\<close>

theorem jump_returns_cell_outside_grid:
  "inGrid wrapGrid 2 0 \<and> \<not> inGrid wrapGrid 3 0 \<and>
   (\<exists>n. jump wrapGrid (Suc d) (mkNode 2 0 0 0 2 (- 1)) east = Inr n \<and>
        node_x n = 3 \<and> node_y n = 0 \<and> node_id n = 3 \<and> n \<noteq> sentinel)"
proof -
  let ?np = "newPoint wrapGrid (mkNode 2 0 0 0 2 (- 1)) east"
  have "jump wrapGrid (Suc d) (mkNode 2 0 0 0 2 (- 1)) east = Inr ?np"
    by (simp add: jump_Suc node_eq_def detectForceNeighbor_def forcedPair_def grid2Index_def
          east_def wrapGrid_fields wrapGrid_blocked)
  moreover have "node_x ?np = 3" "node_y ?np = 0" "node_id ?np = 3"
    by (simp_all add: east_def grid2Index_def wrapGrid_fields)
  moreover from this have "?np \<noteq> sentinel"
    by (auto simp add: sentinel_def mkNode_def simp del: newPoint_fields)
  moreover have "inGrid wrapGrid 2 0" "\<not> inGrid wrapGrid 3 0"
    by (simp_all add: inGrid_def wrapGrid_fields)
  ultimately show ?thesis by blast
qed

subsection \<open>Recursion that does not end, recursion deeper than the grid is long\<close>

lemma narrowGrid_fields:
  "nx narrowGrid = 1" "ny narrowGrid = 7" "ns narrowGrid = 7" "node_id (goal narrowGrid) = 6"
  by (simp_all add: narrowGrid_def ns_def mkNode_def)

lemma narrowGrid_blocked:
  "blockedAt narrowGrid 1 = Inr True" "blockedAt narrowGrid 2 = Inr True"
  "blockedAt narrowGrid 3 = Inr False" "blockedAt narrowGrid 4 = Inr True"
  "blockedAt narrowGrid 5 = Inr True"
  by (simp_all add: blockedAt_def narrowGrid_def threshold_def)

lemma narrow_index: "grid2Index narrowGrid a (3 - a + k) = 3 + k"
  by (simp add: grid2Index_def narrowGrid_fields)

lemma narrow_never_returns:
  "node_x a + node_y a = 3 \<Longrightarrow>
   jump narrowGrid d a (mkNode (- 1) 1 1 0 0 0) = Inl OutOfFuel"
proof (induction d arbitrary: a)
  case 0
  show ?case by simp
next
  case (Suc d)
  let ?m = "mkNode (- 1) 1 1 0 0 0"
  let ?np = "newPoint narrowGrid a ?m"
  from Suc.prems have y: "node_y a = 3 - node_x a" by simp
  have xy: "node_x ?np + node_y ?np = 3" using Suc.prems by simp
  have i: "node_id ?np = 3" using y by (simp add: grid2Index_def narrowGrid_fields)
  have nx: "node_x ?np = node_x a - 1" and ny: "node_y ?np = 3 - node_x a + 1"
    using y by simp_all
  have det: "detectForceNeighbor narrowGrid ?np ?m = Inr False"
    unfolding detectForceNeighbor_def Let_def nx ny
    by (simp add: forcedPair_def grid2Index_def narrowGrid_fields narrowGrid_blocked)
  have px: "jump narrowGrid d ?np (mkNode (- 1) 0 1 0 0 0) = Inr sentinel \<or> d = 0"
  proof (cases d)
    case 0
    then show ?thesis by simp
  next
    case (Suc d')
    have "blockedAt narrowGrid (node_id (newPoint narrowGrid ?np (mkNode (- 1) 0 1 0 0 0)))
            = Inr True"
      using y by (simp add: grid2Index_def narrowGrid_fields narrowGrid_blocked)
    then show ?thesis unfolding Suc by (simp add: jump_guard del: newPoint_fields)
  qed
  have py: "jump narrowGrid d ?np (mkNode 0 1 1 0 0 0) = Inr sentinel \<or> d = 0"
  proof (cases d)
    case 0
    then show ?thesis by simp
  next
    case (Suc d')
    have "blockedAt narrowGrid (node_id (newPoint narrowGrid ?np (mkNode 0 1 1 0 0 0)))
            = Inr True"
      using y by (simp add: grid2Index_def narrowGrid_fields narrowGrid_blocked)
    then show ?thesis unfolding Suc by (simp add: jump_guard del: newPoint_fields)
  qed
  show ?case
  proof (cases "d = 0")
    case True
    then show ?thesis
      by (simp add: jump_Suc i node_eq_def narrowGrid_fields narrowGrid_blocked
            del: newPoint_fields)
  next
    case False
    with px py have "jump narrowGrid d ?np (mkNode (- 1) 0 1 0 0 0) = Inr sentinel"
      "jump narrowGrid d ?np (mkNode 0 1 1 0 0 0) = Inr sentinel" by simp_all
    with det Suc.IH [OF xy] show ?thesis
      by (simp add: jump_Suc i node_eq_def narrowGrid_fields narrowGrid_blocked
            del: newPoint_fields)
  qed
qed

lemma tallGrid_fields:
  "nx tallGrid = 2" "ny tallGrid = 10" "ns tallGrid = 20" "node_id (goal tallGrid) = 1"
  by (simp_all add: tallGrid_def ns_def mkNode_def)

lemma tallGrid_blocked:
  "blockedAt tallGrid 1 = Inr False" "blockedAt tallGrid 2 = Inr False"
  "blockedAt tallGrid 3 = Inr False" "blockedAt tallGrid 4 = Inr False"
  "blockedAt tallGrid 5 = Inr False" "blockedAt tallGrid 6 = Inr False"
  "blockedAt tallGrid 7 = Inr False" "blockedAt tallGrid 8 = Inr False"
  "blockedAt tallGrid 9 = Inr False" "blockedAt tallGrid 10 = Inr False"
  "blockedAt tallGrid 11 = Inr False" "blockedAt tallGrid 12 = Inr False"
  "blockedAt tallGrid 13 = Inr False" "blockedAt tallGrid 14 = Inr False"
  "blockedAt tallGrid 15 = Inr False" "blockedAt tallGrid 16 = Inr False"
  "blockedAt tallGrid 17 = Inr False" "blockedAt tallGrid 18 = Inr True"
  "blockedAt tallGrid 19 = Inr False"
  by (simp_all add: blockedAt_def tallGrid_def threshold_def)

lemma tall_13: "jump tallGrid 13 (mkNode 0 1 0 0 2 (- 1)) east = Inl OutOfFuel"
  by (simp add: eval_nat_numeral jump_Suc node_eq_def detectForceNeighbor_def forcedPair_def
        grid2Index_def east_def tallGrid_fields tallGrid_blocked)

lemma tall_14:
  "\<exists>n. jump tallGrid 14 (mkNode 0 1 0 0 2 (- 1)) east = Inr n \<and> node_id n = 16 \<and> node_x n = 14"
  by (simp add: eval_nat_numeral jump_Suc node_eq_def detectForceNeighbor_def forcedPair_def
        grid2Index_def east_def tallGrid_fields tallGrid_blocked)

text \<open>
  C8: for an in-grid node and a unit motion jump is to terminate, with a recursion depth
  bounded by the grid's diagonal cell count. The code departs from it: on a grid one cell
  wide, jump does not terminate for the in-grid cell \<open>(0, 3)\<close> and the unit motion \<open>(-1, 1)\<close>: whatever number of nested
  activations is available, it needs one more. And on a grid of 2 by 10 cells the walk
  east from the in-grid cell \<open>(0, 1)\<close> needs 14 nested activations, more than the
  nx + ny = 12 cells that any reading of the grid's diagonal cell count allows.
\<close>

theorem jump_recursion_unbounded:
  "(\<forall>d. jump narrowGrid d (mkNode 0 3 0 0 3 (- 1)) (mkNode (- 1) 1 1 0 0 0) = Inl OutOfFuel) \<and>
   inGrid narrowGrid 0 3 \<and> unitMotion (mkNode (- 1) 1 1 0 0 0) \<and>
   jump tallGrid 13 (mkNode 0 1 0 0 2 (- 1)) east = Inl OutOfFuel \<and>
   (\<exists>n. jump tallGrid 14 (mkNode 0 1 0 0 2 (- 1)) east = Inr n \<and> node_id n = 16 \<and> node_x n = 14) \<and>
   inGrid tallGrid 0 1 \<and> unitMotion east \<and> nx tallGrid + ny tallGrid = 12"
proof -
  have "\<forall>d. jump narrowGrid d (mkNode 0 3 0 0 3 (- 1)) (mkNode (- 1) 1 1 0 0 0) = Inl OutOfFuel"
    by (simp add: narrow_never_returns)
  moreover have "inGrid narrowGrid 0 3" "inGrid tallGrid 0 1"
    by (simp_all add: inGrid_def narrowGrid_fields tallGrid_fields)
  moreover have "unitMotion (mkNode (- 1) 1 1 0 0 0)" "unitMotion east"
    by (simp_all add: unitMotion_def east_def)
  moreover have "nx tallGrid + ny tallGrid = 12" by (simp add: tallGrid_fields)
  ultimately show ?thesis using tall_13 tall_14 by (intro conjI)
qed

subsection \<open>plan: the first iteration when start and goal coincide\<close>

lemma validId_update [simp]:
  "validId (p\<lparr>costs := cs, start := st, goal := gl\<rparr>) i = validId p i"
  by (simp add: validId_def ns_def)

lemma planIter_start_goal:
  assumes "node_id gl = node_id st" "\<not> validId p (node_pid st)"
  shows "planIter p motions (Suc d) st gl j \<lparr>open_list = [st], closed_list = [], expand = [st]\<rparr>
           = Inr (Return True [st] [st])"
  using assms
  by (simp add: planIter_def inClosed_def insertClosed_def node_eq_def
        convertClosedListToPath_def findById_def)

text \<open>
  C7: when plan is called with a goal that has the coordinates and the id of the start
  (whose parent id is the sentinel of the data model: not a valid id), the first
  iteration of the loop pops the start, finds it equal to the goal and returns; plan
  returns found = true and the path that consists of the start cell alone. This holds for
  every cost array, every priority-queue order and every list of motions.
\<close>

theorem plan_start_equals_goal:
  assumes "node_x gl = node_x st" "node_y gl = node_y st" "node_id gl = node_id st"
    and "\<not> validId p (node_pid st)"
  shows "plan p motions (Suc d) (j # js) cs st gl = Inr (True, [st], [st]) \<and>
         planIter (p\<lparr>costs := cs, start := st, goal := gl\<rparr>) motions (Suc d) st gl j
             \<lparr>open_list = [st], closed_list = [], expand = [st]\<rparr>
           = Inr (Return True [st] [st])"
proof -
  let ?p = "p\<lparr>costs := cs, start := st, goal := gl\<rparr>"
  from assms(4) have "\<not> validId ?p (node_pid st)" by simp
  from planIter_start_goal [OF assms(3) this]
  have it: "planIter ?p motions (Suc d) st gl j
              \<lparr>open_list = [st], closed_list = [], expand = [st]\<rparr>
            = Inr (Return True [st] [st])" .
  then show ?thesis by (simp add: plan_def)
qed

theorem plan_start_equals_goal_witness:
  "\<not> validId notchGrid (node_pid (mkNode 0 1 0 0 3 (- 1))) \<and>
   plan notchGrid [east, west] 1 [0] (costs notchGrid) (mkNode 0 1 0 0 3 (- 1))
        (mkNode 0 1 0 0 3 (- 1))
     = Inr (True, [mkNode 0 1 0 0 3 (- 1)], [mkNode 0 1 0 0 3 (- 1)])"
proof -
  have v: "\<not> validId notchGrid (node_pid (mkNode 0 1 0 0 3 (- 1)))"
    by (simp add: validId_def)
  from plan_start_equals_goal [OF refl refl refl v, of "[east, west]" 0 0 "[]" "costs notchGrid"]
  show ?thesis using v by simp
qed

subsection \<open>One iteration of the search loop\<close>

lemma planIter_unfold:
  "planIter p motions d st gl j s =
     (if inClosed (closed_list s) (topOf j s)
      then Inr (Continue (s\<lparr>open_list := take (j mod length (open_list s)) (open_list s)
                                         @ drop (Suc (j mod length (open_list s))) (open_list s)\<rparr>))
      else if node_eq (topOf j s) gl then
        bindE (convertClosedListToPath p d (topOf j s # closed_list s) st gl)
          (\<lambda>path. Inr (Return True path (expand s)))
      else
        bindE (jumpPoints p d (closed_list s) (topOf j s) gl motions) (\<lambda>jp_list.
          Inr (Continue
            \<lparr>open_list = take (j mod length (open_list s)) (open_list s)
                           @ drop (Suc (j mod length (open_list s))) (open_list s)
                           @ pushed gl jp_list,
             closed_list = topOf j s # closed_list s,
             expand = expand s @ pushed gl jp_list\<rparr>)))"
  by (simp add: planIter_def topOf_def Let_def insertClosed_def)

lemma inClosed_iff: "inClosed cl n \<longleftrightarrow> (\<exists>m \<in> set cl. node_id m = node_id n)"
  by (simp add: inClosed_def list_ex_iff node_eq_def)

lemma planIter_Return:
  "planIter p motions d st gl j s = Inr (Return f pa ex) \<Longrightarrow>
   f \<and> node_eq (topOf j s) gl \<and> \<not> inClosed (closed_list s) (topOf j s) \<and> ex = expand s \<and>
   convertClosedListToPath p d (topOf j s # closed_list s) st gl = Inr pa"
  by (auto simp add: planIter_unfold bindE_eq_Inr split: if_splits)

lemma planIter_Continue:
  assumes "planIter p motions d st gl j s = Inr (Continue s')"
  shows "(inClosed (closed_list s) (topOf j s) \<and> closed_list s' = closed_list s \<and>
          expand s' = expand s \<and>
          open_list s' = take (j mod length (open_list s)) (open_list s)
                           @ drop (Suc (j mod length (open_list s))) (open_list s)) \<or>
         (\<not> inClosed (closed_list s) (topOf j s) \<and> \<not> node_eq (topOf j s) gl \<and>
          closed_list s' = topOf j s # closed_list s \<and>
          (\<exists>jps. jumpPoints p d (closed_list s) (topOf j s) gl motions = Inr jps \<and>
             open_list s' = take (j mod length (open_list s)) (open_list s)
                           @ drop (Suc (j mod length (open_list s))) (open_list s)
                           @ pushed gl jps \<and>
             expand s' = expand s @ pushed gl jps))"
  using assms by (auto simp add: planIter_unfold bindE_eq_Inr split: if_splits)

lemma planIter_closed_grows:
  assumes "planIter p motions d st gl j s = Inr (Continue s')"
  shows "set (closed_list s) \<subseteq> set (closed_list s')" "inClosed (closed_list s') (topOf j s)"
  using planIter_Continue [OF assms] by (auto simp add: inClosed_iff)

lemma runIters_Cons_Continue:
  assumes "runIters p motions d st gl (j # js) s = Inr (Continue s')"
  shows "\<exists>s1. planIter p motions d st gl j s = Inr (Continue s1) \<and>
              runIters p motions d st gl js s1 = Inr (Continue s')"
proof (cases "planIter p motions d st gl j s")
  case (Inl e)
  with assms show ?thesis by (simp split: if_splits)
next
  case (Inr r)
  with assms show ?thesis by (cases r) (simp_all split: if_splits)
qed

lemma runIters_closed_grows:
  "runIters p motions d st gl js s = Inr (Continue s') \<Longrightarrow>
   set (closed_list s) \<subseteq> set (closed_list s')"
proof (induction js arbitrary: s)
  case Nil
  then show ?case by simp
next
  case (Cons j js)
  from runIters_Cons_Continue [OF Cons.prems] obtain s1 where
    s1: "planIter p motions d st gl j s = Inr (Continue s1)"
    and r: "runIters p motions d st gl js s1 = Inr (Continue s')"
    by blast
  from planIter_closed_grows(1) [OF s1] Cons.IH [OF r] show ?case by blast
qed

text \<open>The loop of plan is the run of its iterations, followed by the test of the open list.\<close>

lemma planLoop_runIters:
  "planLoop p motions d st gl tops s =
     bindE (runIters p motions d st gl tops s) (\<lambda>r.
       case r of
         Return found path ex \<Rightarrow> Inr (found, path, ex)
       | Continue s' \<Rightarrow>
           if open_list s' = [] then Inr (False, [], expand s') else Inl OutOfFuel)"
proof (induction tops arbitrary: s)
  case Nil
  show ?case by simp
next
  case (Cons j js)
  show ?case
  proof (cases "planIter p motions d st gl j s")
    case (Inl e)
    then show ?thesis by simp
  next
    case (Inr r)
    then show ?thesis by (cases r) (simp_all add: Cons.IH)
  qed
qed

lemma cellGrid_fields:
  "nx cellGrid = 3" "ny cellGrid = 3" "ns cellGrid = 9" "node_id (goal cellGrid) = 8"
  by (simp_all add: cellGrid_def ns_def mkNode_def)

lemma cellGrid_blocked:
  "blockedAt cellGrid 3 = Inr True" "blockedAt cellGrid 5 = Inr True"
  by (simp_all add: blockedAt_def cellGrid_def threshold_def)

lemma cellGrid_jumpPoints:
  "jumpPoints cellGrid 1 [] (mkNode 1 1 0 0 4 (- 1)) (mkNode 2 2 0 0 8 (- 1)) [east, west] = Inr []"
  unfolding One_nat_def
  by (simp add: jump_guard grid2Index_def east_def west_def cellGrid_fields cellGrid_blocked)

text \<open>
  C5: an iteration of the loop never removes a node from the closed list, and after it
  the node it popped is in the closed list; a popped node that is already there is
  discarded: the closed list and the expansion trace are unchanged and nothing is pushed.
  Over any number of further iterations the closed list only grows, so once an iteration
  has expanded a node, no later iteration expands a node equal to it (with the same id),
  whatever the open list still holds.
\<close>

theorem closed_list_expands_once:
  "(planIter p motions d st gl j s = Inr (Continue s') \<longrightarrow>
      set (closed_list s) \<subseteq> set (closed_list s') \<and>
      (\<forall>n. inClosed (closed_list s) n \<longrightarrow> inClosed (closed_list s') n) \<and>
      inClosed (closed_list s') (topOf j s) \<and>
      (inClosed (closed_list s) (topOf j s) \<longrightarrow>
         closed_list s' = closed_list s \<and> expand s' = expand s \<and>
         open_list s' = take (j mod length (open_list s)) (open_list s)
                          @ drop (Suc (j mod length (open_list s))) (open_list s))) \<and>
   (runIters p motions d st gl js s = Inr (Continue s2) \<longrightarrow>
      set (closed_list s) \<subseteq> set (closed_list s2)) \<and>
   (expandsNode gl j s \<and> planIter p motions d st gl j s = Inr (Continue s') \<and>
    runIters p motions d st gl js s' = Inr (Continue s3) \<and> node_eq (topOf k s3) (topOf j s)
      \<longrightarrow> \<not> expandsNode gl k s3)"
proof (intro conjI impI allI)
  assume a: "planIter p motions d st gl j s = Inr (Continue s')"
  from planIter_closed_grows [OF a]
  show "set (closed_list s) \<subseteq> set (closed_list s')" "inClosed (closed_list s') (topOf j s)"
    by simp_all
  then show "inClosed (closed_list s) n \<Longrightarrow> inClosed (closed_list s') n" for n
    by (auto simp add: inClosed_iff)
  show "inClosed (closed_list s) (topOf j s) \<Longrightarrow> closed_list s' = closed_list s"
       "inClosed (closed_list s) (topOf j s) \<Longrightarrow> expand s' = expand s"
       "inClosed (closed_list s) (topOf j s) \<Longrightarrow>
          open_list s' = take (j mod length (open_list s)) (open_list s)
                          @ drop (Suc (j mod length (open_list s))) (open_list s)"
    using planIter_Continue [OF a] by auto
next
  assume "runIters p motions d st gl js s = Inr (Continue s2)"
  then show "set (closed_list s) \<subseteq> set (closed_list s2)" by (rule runIters_closed_grows)
next
  assume a: "expandsNode gl j s \<and> planIter p motions d st gl j s = Inr (Continue s') \<and>
    runIters p motions d st gl js s' = Inr (Continue s3) \<and> node_eq (topOf k s3) (topOf j s)"
  then have it: "planIter p motions d st gl j s = Inr (Continue s')"
    and ru: "runIters p motions d st gl js s' = Inr (Continue s3)" by simp_all
  have "inClosed (closed_list s') (topOf j s)" using it by (rule planIter_closed_grows(2))
  moreover have "set (closed_list s') \<subseteq> set (closed_list s3)"
    using ru by (rule runIters_closed_grows)
  ultimately have "inClosed (closed_list s3) (topOf j s)" by (auto simp add: inClosed_iff)
  with a have "inClosed (closed_list s3) (topOf k s3)"
    by (auto simp add: inClosed_iff node_eq_def)
  then show "\<not> expandsNode gl k s3" by (simp add: expandsNode_def)
qed

text \<open>
  On the grid whose only free cell is the centre, with two entries for the centre in the
  open list: the first iteration expands the centre, the second discards the other entry.
\<close>

theorem closed_list_expands_once_witness:
  "expandsNode (mkNode 2 2 0 0 8 (- 1)) 0
     \<lparr>open_list = [mkNode 1 1 0 0 4 (- 1), mkNode 1 1 0 0 4 (- 1)], closed_list = [],
      expand = [mkNode 1 1 0 0 4 (- 1)]\<rparr> \<and>
   planIter cellGrid [east, west] 1 (mkNode 1 1 0 0 4 (- 1)) (mkNode 2 2 0 0 8 (- 1)) 0
     \<lparr>open_list = [mkNode 1 1 0 0 4 (- 1), mkNode 1 1 0 0 4 (- 1)], closed_list = [],
      expand = [mkNode 1 1 0 0 4 (- 1)]\<rparr>
     = Inr (Continue \<lparr>open_list = [mkNode 1 1 0 0 4 (- 1)],
                      closed_list = [mkNode 1 1 0 0 4 (- 1)],
                      expand = [mkNode 1 1 0 0 4 (- 1)]\<rparr>) \<and>
   \<not> expandsNode (mkNode 2 2 0 0 8 (- 1)) 0
     \<lparr>open_list = [mkNode 1 1 0 0 4 (- 1)], closed_list = [mkNode 1 1 0 0 4 (- 1)],
      expand = [mkNode 1 1 0 0 4 (- 1)]\<rparr> \<and>
   planIter cellGrid [east, west] 1 (mkNode 1 1 0 0 4 (- 1)) (mkNode 2 2 0 0 8 (- 1)) 0
     \<lparr>open_list = [mkNode 1 1 0 0 4 (- 1)], closed_list = [mkNode 1 1 0 0 4 (- 1)],
      expand = [mkNode 1 1 0 0 4 (- 1)]\<rparr>
     = Inr (Continue \<lparr>open_list = [], closed_list = [mkNode 1 1 0 0 4 (- 1)],
                      expand = [mkNode 1 1 0 0 4 (- 1)]\<rparr>)"
proof -
  let ?c = "mkNode 1 1 0 0 4 (- 1)"
  let ?g = "mkNode 2 2 0 0 8 (- 1)"
  let ?s0 = "\<lparr>open_list = [?c, ?c], closed_list = [], expand = [?c]\<rparr>"
  let ?s1 = "\<lparr>open_list = [?c], closed_list = [?c], expand = [?c]\<rparr>"
  let ?s2 = "\<lparr>open_list = [], closed_list = [?c], expand = [?c]\<rparr>"
  have t: "topOf 0 ?s0 = ?c" "topOf 0 ?s1 = ?c" by (simp_all add: topOf_def)
  have e: "expandsNode ?g 0 ?s0"
    by (simp add: expandsNode_def t inClosed_def node_eq_def)
  have i0: "planIter cellGrid [east, west] 1 ?c ?g 0 ?s0 = Inr (Continue ?s1)"
    by (simp add: planIter_unfold t inClosed_def node_eq_def cellGrid_jumpPoints
          del: One_nat_def jumpPoints.simps)
  have i1: "planIter cellGrid [east, west] 1 ?c ?g 0 ?s1 = Inr (Continue ?s2)"
    by (simp add: planIter_unfold t inClosed_def node_eq_def del: One_nat_def)
  have r: "runIters cellGrid [east, west] 1 ?c ?g [] ?s1 = Inr (Continue ?s1)" by simp
  have q: "node_eq (topOf 0 ?s1) (topOf 0 ?s0)" by (simp add: t node_eq_def)
  note T = closed_list_expands_once [of cellGrid "[east, west]" 1 ?c ?g 0 ?s0 ?s1 "[]" ?s1 ?s1 0]
  from conjunct2 [OF conjunct2 [OF T]] e i0 r q
  have n: "\<not> expandsNode ?g 0 ?s1" by blast
  from e i0 n i1 show ?thesis by (intro conjI)
qed

subsection \<open>The invariant of the search and the path\<close>

lemma topOf_in_open: "open_list s \<noteq> [] \<Longrightarrow> topOf j s \<in> set (open_list s)"
  by (simp add: topOf_def)

lemma set_remove_nth: "set (take i xs @ drop (Suc i) xs) \<subseteq> set xs"
  by (auto dest: in_set_takeD in_set_dropD)

lemma set_pushed: "set (pushed gl jps) \<subseteq> set jps"
  by (induction jps) auto

lemma jumpPoints_result:
  "jumpPoints p d cl cur gl motions = Inr jps \<Longrightarrow> n \<in> set jps \<Longrightarrow>
   validId p (node_id n) \<and> node_pid n = node_id cur"
proof (induction motions arbitrary: jps)
  case Nil
  then show ?case by simp
next
  case (Cons m motions)
  from Cons.prems(1) obtain jp rest where
    jp: "jump p d cur m = Inr jp" and rest: "jumpPoints p d cl cur gl motions = Inr rest"
    and jps: "jps = (if node_id jp \<noteq> - 1 \<and> \<not> inClosed cl jp
              then jp\<lparr>node_pid := node_id cur,
                      node_h_cost := sqrt (real_of_int ((node_x jp - node_x gl)\<^sup>2)
                                           + real_of_int ((node_y jp - node_y gl)\<^sup>2))\<rparr>
                   # rest
              else rest)"
    by (auto simp add: bindE_eq_Inr)
  show ?case
  proof (cases "n \<in> set rest")
    case True
    with Cons.IH [OF rest] show ?thesis by simp
  next
    case False
    with Cons.prems(2) jps have n: "n = jp\<lparr>node_pid := node_id cur,
                      node_h_cost := sqrt (real_of_int ((node_x jp - node_x gl)\<^sup>2)
                                           + real_of_int ((node_y jp - node_y gl)\<^sup>2))\<rparr>"
      and ns: "node_id jp \<noteq> - 1"
      by (auto split: if_splits)
    from jump_result [OF jp] ns have "0 \<le> node_id jp \<and> node_id jp < ns p" by auto
    with n show ?thesis by (simp add: validId_def)
  qed
qed

lemma searchInv_planIter:
  assumes inv: "searchInv p st s" and ne: "open_list s \<noteq> []"
    and it: "planIter p motions d st gl j s = Inr (Continue s')"
  shows "searchInv p st s'"
proof -
  let ?rest = "take (j mod length (open_list s)) (open_list s)
                 @ drop (Suc (j mod length (open_list s))) (open_list s)"
  have rest: "set ?rest \<subseteq> set (open_list s)" by (rule set_remove_nth)
  from planIter_Continue [OF it] show ?thesis
  proof (elim disjE conjE exE)
    assume "closed_list s' = closed_list s" "open_list s' = ?rest"
    with inv rest show ?thesis unfolding searchInv_def by auto
  next
    fix jps
    assume cl: "closed_list s' = topOf j s # closed_list s"
      and jp: "jumpPoints p d (closed_list s) (topOf j s) gl motions = Inr jps"
      and op: "open_list s' = take (j mod length (open_list s)) (open_list s)
                           @ drop (Suc (j mod length (open_list s))) (open_list s)
                           @ pushed gl jps"
    have top: "topOf j s \<in> set (open_list s)" using ne by (rule topOf_in_open)
    show ?thesis unfolding searchInv_def
    proof
      fix n assume n: "n \<in> set (open_list s') \<union> set (closed_list s')"
      show "validId p (node_id n) \<and>
            (n = st \<or> validId p (node_pid n) \<and> (\<exists>m \<in> set (closed_list s'). node_id m = node_pid n))"
      proof (cases "n \<in> set (pushed gl jps)")
        case True
        then have "n \<in> set jps" using set_pushed by blast
        from jumpPoints_result [OF jp this]
        have v: "validId p (node_id n)" and pid: "node_pid n = node_id (topOf j s)" by simp_all
        from inv top have "validId p (node_id (topOf j s))" unfolding searchInv_def by blast
        with v pid cl show ?thesis by auto
      next
        case False
        with n op cl have "n \<in> set (open_list s) \<union> set (closed_list s)"
          using top by (auto dest: in_set_takeD in_set_dropD)
        with inv have "validId p (node_id n) \<and>
            (n = st \<or> validId p (node_pid n) \<and> (\<exists>m \<in> set (closed_list s). node_id m = node_pid n))"
          unfolding searchInv_def by blast
        with cl show ?thesis by auto
      qed
    qed
  qed
qed

lemma findById_Some: "findById cl i = Some n \<Longrightarrow> n \<in> set cl \<and> node_id n = i"
  by (auto simp add: findById_def find_Some_iff)

lemma findById_None: "findById cl i = None \<Longrightarrow> \<forall>n \<in> set cl. node_id n \<noteq> i"
  by (auto simp add: findById_def find_None_iff)

lemma walkBack_path:
  assumes chain: "\<forall>n \<in> set cl. n = st \<or>
                     validId p (node_pid n) \<and> (\<exists>m \<in> set cl. node_id m = node_pid n)"
    and st: "\<not> validId p (node_pid st)"
  shows "cur \<in> set cl \<Longrightarrow> parentChain (cur # acc) \<Longrightarrow>
         walkBack p k cl cur acc = Inr path \<Longrightarrow>
         path \<noteq> [] \<and> hd path = st \<and> last path = last (cur # acc) \<and> parentChain path"
proof (induction k arbitrary: cur acc)
  case 0
  then show ?case by simp
next
  case (Suc k)
  show ?case
  proof (cases "validId p (node_pid cur)")
    case False
    with chain Suc.prems(1) have "cur = st" by blast
    with False Suc.prems show ?thesis by auto
  next
    case True
    have "cur \<noteq> st" using True st by auto
    with chain Suc.prems(1) obtain m where "m \<in> set cl" "node_id m = node_pid cur" by blast
    with findById_None [of cl "node_pid cur"] obtain par where
      par: "findById cl (node_pid cur) = Some par" by (cases "findById cl (node_pid cur)") auto
    from findById_Some [OF par] have p1: "par \<in> set cl" and p2: "node_id par = node_pid cur"
      by simp_all
    from Suc.prems(2) p2 have pc: "parentChain (par # cur # acc)" by simp
    from Suc.prems(3) True par have "walkBack p k cl par (cur # acc) = Inr path" by simp
    from Suc.IH [OF p1 pc this] show ?thesis by simp
  qed
qed

lemma convert_path:
  assumes inv: "searchInv p st s" and ne: "open_list s \<noteq> []"
    and st: "\<not> validId p (node_pid st)"
    and eq: "node_eq (topOf j s) gl"
    and conv: "convertClosedListToPath p d (topOf j s # closed_list s) st gl = Inr path"
  shows "path \<noteq> [] \<and> hd path = st \<and> node_eq (last path) gl \<and> parentChain path"
proof -
  let ?cl = "topOf j s # closed_list s"
  have top: "topOf j s \<in> set (open_list s)" using ne by (rule topOf_in_open)
  have chain: "\<forall>n \<in> set ?cl. n = st \<or>
                     validId p (node_pid n) \<and> (\<exists>m \<in> set ?cl. node_id m = node_pid n)"
    using inv top unfolding searchInv_def by auto
  have f: "findById ?cl (node_id gl) = Some (topOf j s)"
    using eq by (simp add: findById_def node_eq_def)
  with conv have w: "walkBack p d ?cl (topOf j s) [] = Inr path"
    by (simp add: convertClosedListToPath_def)
  have "topOf j s \<in> set ?cl" "parentChain [topOf j s]" by simp_all
  from walkBack_path [OF chain st this w] eq show ?thesis by simp
qed

lemma planLoop_outcomes:
  assumes st: "\<not> validId p (node_pid st)"
  shows "searchInv p st s \<Longrightarrow> planLoop p motions d st gl tops s = Inr (found, path, ex) \<Longrightarrow>
         (found \<and> path \<noteq> [] \<and> hd path = st \<and> node_eq (last path) gl \<and> parentChain path) \<or>
         (\<not> found \<and> path = [])"
proof (induction tops arbitrary: s)
  case Nil
  then show ?case by (simp split: if_splits)
next
  case (Cons j js)
  show ?case
  proof (cases "open_list s = []")
    case True
    with Cons.prems(2) show ?thesis by simp
  next
    case False
    with Cons.prems(2) obtain r where r: "planIter p motions d st gl j s = Inr r"
      and res: "(case r of Return f pa e \<Rightarrow> Inr (f, pa, e)
                 | Continue s' \<Rightarrow> planLoop p motions d st gl js s') = Inr (found, path, ex)"
      by (auto simp add: bindE_eq_Inr)
    show ?thesis
    proof (cases r)
      case (Continue s')
      with r have "planIter p motions d st gl j s = Inr (Continue s')" by simp
      from searchInv_planIter [OF Cons.prems(1) False this]
      have "searchInv p st s'" .
      moreover from res Continue have "planLoop p motions d st gl js s' = Inr (found, path, ex)"
        by simp
      ultimately show ?thesis by (rule Cons.IH)
    next
      case (Return f pa e)
      with res have fe: "f = found" "pa = path" by simp_all
      from r Return fe have "planIter p motions d st gl j s = Inr (Return found path e)" by simp
      from planIter_Return [OF this]
      have "found" "node_eq (topOf j s) gl"
        "convertClosedListToPath p d (topOf j s # closed_list s) st gl = Inr path"
        by simp_all
      with convert_path [OF Cons.prems(1) False st] show ?thesis by blast
    qed
  qed
qed

lemma searchInv_init:
  "validId p (node_id st) \<Longrightarrow>
   searchInv p st \<lparr>open_list = [st], closed_list = [], expand = [st]\<rparr>"
  by (simp add: searchInv_def)

lemma searchInv_cong:
  "ns q = ns p \<Longrightarrow> searchInv q st s = searchInv p st s"
  by (simp add: searchInv_def validId_def)

subsection \<open>jump on an outlined grid\<close>

lemma outlined_iff:
  "outlined p \<longleftrightarrow>
     (\<forall>a b. inGrid p a b \<longrightarrow> interior p a b \<or> blockedAt p (grid2Index p a b) = Inr True)"
proof
  assume o: "outlined p"
  show "\<forall>a b. inGrid p a b \<longrightarrow> interior p a b \<or> blockedAt p (grid2Index p a b) = Inr True"
  proof (intro allI impI)
    fix a b assume "inGrid p a b"
    then have "b \<in> set [0..ny p - 1]" "a \<in> set [0..nx p - 1]"
      by (auto simp add: inGrid_def)
    with o show "interior p a b \<or> blockedAt p (grid2Index p a b) = Inr True"
      unfolding outlined_def list_all_iff by blast
  qed
next
  assume a: "\<forall>a b. inGrid p a b \<longrightarrow> interior p a b \<or> blockedAt p (grid2Index p a b) = Inr True"
  show "outlined p"
    unfolding outlined_def list_all_iff
  proof (intro ballI)
    fix b a assume "b \<in> set [0..ny p - 1]" "a \<in> set [0..nx p - 1]"
    then have "inGrid p a b" by (auto simp add: inGrid_def)
    with a show "interior p a b \<or> blockedAt p (grid2Index p a b) = Inr True" by blast
  qed
qed

lemma interior_inGrid: "interior p a b \<Longrightarrow> inGrid p a b"
  by (auto simp add: interior_def inGrid_def)

lemma interior_readable:
  assumes "wellFormed p" "interior p (node_x point) (node_y point)" "unitMotion motion"
  shows "readable p point motion"
  unfolding readable_def list_all_iff
proof (clarify)
  fix a b assume "(a, b) \<in> set (neighbourCells point motion)"
  with assms(2,3) have "inGrid p a b" by (rule interior_cells_inGrid)
  from inGrid_index [OF this] assms(1)
  show "0 \<le> grid2Index p a b \<and> grid2Index p a b < int (length (costs p))"
    by (simp add: wellFormed_def)
qed

lemma interior_detect:
  assumes "wellFormed p" "interior p (node_x point) (node_y point)" "unitMotion motion"
  shows "\<exists>f. detectForceNeighbor p point motion = Inr f"
  using detect_refines [OF interior_readable [OF assms]] by blast

lemma inGrid_blockedAt:
  assumes "wellFormed p" "inGrid p a b"
  shows "\<exists>c. blockedAt p (grid2Index p a b) = Inr c"
  using inGrid_index [OF assms(2)] assms(1) by (simp add: blockedAt_def wellFormed_def)

text \<open>The step from an interior cell: what the guard of jump sees.\<close>

lemma interior_step:
  assumes wf: "wellFormed p" and ol: "outlined p"
    and pt: "interior p (node_x point) (node_y point)" and um: "unitMotion motion"
  shows "0 \<le> node_id (newPoint p point motion) \<and> node_id (newPoint p point motion) < ns p \<and>
         (blockedAt p (node_id (newPoint p point motion)) = Inr True \<or>
          blockedAt p (node_id (newPoint p point motion)) = Inr False \<and>
          interior p (node_x (newPoint p point motion)) (node_y (newPoint p point motion)) \<and>
          room p (newPoint p point motion) motion = room p point motion - 1)"
proof -
  let ?a = "node_x point + node_x motion" and ?b = "node_y point + node_y motion"
  have g: "inGrid p ?a ?b"
    using pt um by (auto simp add: interior_def inGrid_def unitMotion_def)
  from inGrid_index [OF g] have r: "0 \<le> grid2Index p ?a ?b" "grid2Index p ?a ?b < ns p"
    by simp_all
  from inGrid_blockedAt [OF wf g] obtain c where c: "blockedAt p (grid2Index p ?a ?b) = Inr c"
    by blast
  show ?thesis
  proof (cases c)
    case True
    with c r show ?thesis by simp
  next
    case False
    from ol g have "interior p ?a ?b \<or> blockedAt p (grid2Index p ?a ?b) = Inr True"
      by (simp add: outlined_iff)
    with c False have i: "interior p ?a ?b" by simp
    have "room p (newPoint p point motion) motion = room p point motion - 1"
      using um by (auto simp add: room_def unitMotion_def)
    with c False r i show ?thesis by simp
  qed
qed

lemma room_interior:
  "interior p (node_x point) (node_y point) \<Longrightarrow> unitMotion motion \<Longrightarrow>
   1 \<le> room p point motion \<and> room p point motion \<le> nx p + ny p"
  by (auto simp add: room_def interior_def unitMotion_def)

lemma jump_axis_total:
  assumes wf: "wellFormed p" and ol: "outlined p" and um: "unitMotion motion"
    and ax: "node_x motion = 0 \<or> node_y motion = 0"
  shows "interior p (node_x point) (node_y point) \<Longrightarrow> room p point motion \<le> int d \<Longrightarrow>
         \<exists>n. jump p d point motion = Inr n \<and>
             (node_id n = - 1 \<or> interior p (node_x n) (node_y n))"
proof (induction d arbitrary: point)
  case 0
  with room_interior [OF 0(1) um] show ?case by simp
next
  case (Suc d)
  let ?np = "newPoint p point motion"
  note st = interior_step [OF wf ol Suc.prems(1) um]
  show ?case
  proof (cases "blockedAt p (node_id ?np) = Inr True")
    case True
    then show ?thesis by (simp add: jump_guard del: newPoint_fields)
  next
    case False
    with st have r: "0 \<le> node_id ?np" "node_id ?np < ns p"
      and b: "blockedAt p (node_id ?np) = Inr False"
      and i: "interior p (node_x ?np) (node_y ?np)"
      and rm: "room p ?np motion = room p point motion - 1"
      by blast+
    from interior_detect [OF wf i um] obtain f where
      f: "detectForceNeighbor p ?np motion = Inr f" by blast
    from rm Suc.prems(2) have "room p ?np motion \<le> int d" by simp
    from Suc.IH [OF i this] obtain n where
      n: "jump p d ?np motion = Inr n" "node_id n = - 1 \<or> interior p (node_x n) (node_y n)"
      by blast
    from r b f n i ax show ?thesis
      by (auto simp add: jump_Suc simp del: newPoint_fields)
  qed
qed

lemma jump_total:
  assumes wf: "wellFormed p" and ol: "outlined p" and um: "unitMotion motion"
  shows "interior p (node_x point) (node_y point) \<Longrightarrow>
         room p point motion + (nx p + ny p) \<le> int d \<Longrightarrow>
         \<exists>n. jump p d point motion = Inr n \<and>
             (node_id n = - 1 \<or> interior p (node_x n) (node_y n))"
proof (induction d arbitrary: point)
  case 0
  with room_interior [OF 0(1) um] show ?case by simp
next
  case (Suc d)
  let ?np = "newPoint p point motion"
  note st = interior_step [OF wf ol Suc.prems(1) um]
  show ?case
  proof (cases "blockedAt p (node_id ?np) = Inr True")
    case True
    then show ?thesis by (simp add: jump_guard del: newPoint_fields)
  next
    case False
    with st have r: "0 \<le> node_id ?np" "node_id ?np < ns p"
      and b: "blockedAt p (node_id ?np) = Inr False"
      and i: "interior p (node_x ?np) (node_y ?np)"
      and rm: "room p ?np motion = room p point motion - 1"
      by blast+
    from interior_detect [OF wf i um] obtain f where
      f: "detectForceNeighbor p ?np motion = Inr f" by blast
    from rm Suc.prems(2) have le: "room p ?np motion + (nx p + ny p) \<le> int d" by simp
    from Suc.IH [OF i this] obtain n where
      n: "jump p d ?np motion = Inr n" "node_id n = - 1 \<or> interior p (node_x n) (node_y n)"
      by blast
    from room_interior [OF i um] le have big: "nx p + ny p \<le> int d" by simp
    show ?thesis
    proof (cases "node_x motion \<noteq> 0 \<and> node_y motion \<noteq> 0")
      case False
      with r b f n i show ?thesis
        by (auto simp add: jump_Suc simp del: newPoint_fields)
    next
      case True
      let ?mx = "mkNode (node_x motion) 0 1 0 0 0" and ?my = "mkNode 0 (node_y motion) 1 0 0 0"
      have ux: "unitMotion ?mx" "node_x ?mx = 0 \<or> node_y ?mx = 0"
        and uy: "unitMotion ?my" "node_x ?my = 0 \<or> node_y ?my = 0"
        using um True by (auto simp add: unitMotion_def)
      from room_interior [OF i ux(1)] big have "room p ?np ?mx \<le> int d" by simp
      from jump_axis_total [OF wf ol ux i this] obtain a where
        a: "jump p d ?np ?mx = Inr a" by blast
      from room_interior [OF i uy(1)] big have "room p ?np ?my \<le> int d" by simp
      from jump_axis_total [OF wf ol uy i this] obtain c where
        c: "jump p d ?np ?my = Inr c" by blast
      from r b f n i a c True show ?thesis
        by (auto simp add: jump_Suc simp del: newPoint_fields)
    qed
  qed
qed

subsection \<open>The search on an outlined grid returns\<close>

lemma jumpPoints_total:
  assumes wf: "wellFormed p" and ol: "outlined p"
    and cur: "interior p (node_x cur) (node_y cur)"
    and d: "2 * (nx p + ny p) \<le> int d"
  shows "\<forall>m \<in> set motions. unitMotion m \<Longrightarrow>
         \<exists>jps. jumpPoints p d cl cur gl motions = Inr jps \<and> length jps \<le> length motions \<and>
               (\<forall>n \<in> set jps. interior p (node_x n) (node_y n))"
proof (induction motions)
  case Nil
  show ?case by simp
next
  case (Cons m motions)
  then have um: "unitMotion m" and rest: "\<forall>m \<in> set motions. unitMotion m" by simp_all
  from room_interior [OF cur um] d have "room p cur m + (nx p + ny p) \<le> int d" by simp
  from jump_total [OF wf ol um cur this] obtain n where
    n: "jump p d cur m = Inr n" "node_id n = - 1 \<or> interior p (node_x n) (node_y n)" by blast
  from Cons.IH [OF rest] obtain jps where
    jps: "jumpPoints p d cl cur gl motions = Inr jps" "length jps \<le> length motions"
      "\<forall>n \<in> set jps. interior p (node_x n) (node_y n)" by blast
  from n jps show ?case by auto
qed

lemma closed_length_bound:
  assumes "distinct (map node_id cl)" "\<forall>n \<in> set cl. validId p (node_id n)" "0 \<le> ns p"
  shows "int (length cl) \<le> ns p"
proof -
  have "set (map node_id cl) \<subseteq> {0..<ns p}"
    using assms(2) by (auto simp add: validId_def)
  then have "card (set (map node_id cl)) \<le> card {0..<ns p}"
    by (intro card_mono) simp_all
  moreover have "card (set (map node_id cl)) = length cl"
    using distinct_card [OF assms(1)] by simp
  ultimately have "length cl \<le> nat (ns p)" by simp
  with assms(3) show ?thesis by linarith
qed

lemma wellFormed_ns: "wellFormed p \<Longrightarrow> 0 \<le> ns p"
  by (simp add: wellFormed_def ns_def)

lemma olderParents_suffix: "olderParents st (xs @ ys) \<Longrightarrow> olderParents st ys"
  by (induction xs) simp_all

lemma walkBack_total:
  assumes dist: "distinct (map node_id cl)"
    and st: "\<not> validId p (node_pid st)"
  shows "cl = pre @ cur # older \<Longrightarrow> olderParents st (cur # older) \<Longrightarrow> length (cur # older) \<le> k \<Longrightarrow>
         \<exists>path. walkBack p k cl cur acc = Inr path"
proof (induction k arbitrary: pre cur older acc)
  case 0
  then show ?case by simp
next
  case (Suc k)
  show ?case
  proof (cases "validId p (node_pid cur)")
    case False
    then show ?thesis by simp
  next
    case True
    with st have "cur \<noteq> st" by auto
    with Suc.prems(2) obtain m where m: "m \<in> set older" "node_id m = node_pid cur"
      by (auto simp add: list_ex_iff)
    from m(1) obtain t1 t2 where older: "older = t1 @ m # t2" by (auto dest: split_list)
    have mcl: "m \<in> set cl" using Suc.prems(1) m(1) by simp
    with findById_None [of cl "node_pid cur"] m(2) obtain par where
      par: "findById cl (node_pid cur) = Some par"
      by (cases "findById cl (node_pid cur)") auto
    from findById_Some [OF par] have "par \<in> set cl" "node_id par = node_id m"
      using m(2) by simp_all
    with dist mcl have pm: "par = m"
      by (auto simp add: distinct_map dest: inj_onD)
    have c: "cl = (pre @ cur # t1) @ m # t2" using Suc.prems(1) older by simp
    have o: "olderParents st (m # t2)"
      using Suc.prems(2) older olderParents_suffix [of st "cur # t1" "m # t2"] by simp
    have l: "length (m # t2) \<le> k" using Suc.prems(3) older by simp
    from Suc.IH [OF c o l] obtain path where "walkBack p k cl m (cur # acc) = Inr path"
      by blast
    with True par pm show ?thesis by simp
  qed
qed

lemma totalInv_convert:
  assumes wf: "wellFormed p" and inv: "totalInv p st s" and ne: "open_list s \<noteq> []"
    and st: "\<not> validId p (node_pid st)"
    and ncl: "\<not> inClosed (closed_list s) (topOf j s)"
    and eq: "node_eq (topOf j s) gl"
    and d: "ns p \<le> int d"
  shows "\<exists>path. convertClosedListToPath p d (topOf j s # closed_list s) st gl = Inr path"
proof -
  let ?cl = "topOf j s # closed_list s"
  have top: "topOf j s \<in> set (open_list s)" using ne by (rule topOf_in_open)
  from inv have si: "searchInv p st s" and di: "distinct (map node_id (closed_list s))"
    and op: "olderParents st (closed_list s)" by (simp_all add: totalInv_def)
  have dist: "distinct (map node_id ?cl)" using di ncl by (auto simp add: inClosed_iff)
  have valid: "\<forall>n \<in> set ?cl. validId p (node_id n)"
    using si top unfolding searchInv_def by auto
  have "topOf j s = st \<or> list_ex (\<lambda>m. node_id m = node_pid (topOf j s)) (closed_list s)"
    using si top unfolding searchInv_def list_ex_iff by blast
  with op have older: "olderParents st ?cl" by simp
  from closed_length_bound [OF dist valid wellFormed_ns [OF wf]] d have len: "length ?cl \<le> d" by linarith
  have "?cl = [] @ topOf j s # closed_list s" by simp
  from walkBack_total [OF dist st this older len] obtain path where
    "walkBack p d ?cl (topOf j s) [] = Inr path" by blast
  moreover have "findById ?cl (node_id gl) = Some (topOf j s)"
    using eq by (simp add: findById_def node_eq_def)
  ultimately show ?thesis by (simp add: convertClosedListToPath_def)
qed

lemma length_pushed: "length (pushed gl jps) \<le> length jps"
  by (induction jps) auto

lemma length_remove_nth:
  "xs \<noteq> [] \<Longrightarrow> length (take (j mod length xs) xs @ drop (Suc (j mod length xs)) xs)
                 = length xs - 1"
proof -
  assume "xs \<noteq> []"
  then have "j mod length xs < length xs" by simp
  then show ?thesis by (simp add: min_def)
qed

lemma totalInv_planIter:
  assumes wf: "wellFormed p" and ol: "outlined p"
    and um: "\<forall>m \<in> set motions. unitMotion m"
    and d: "2 * (nx p + ny p) \<le> int d"
    and inv: "totalInv p st s" and ne: "open_list s \<noteq> []"
    and it: "planIter p motions d st gl j s = Inr (Continue s')"
  shows "totalInv p st s' \<and> budget p motions s' < budget p motions s"
proof -
  let ?i = "j mod length (open_list s)"
  let ?rest = "take ?i (open_list s) @ drop (Suc ?i) (open_list s)"
  have rest: "set ?rest \<subseteq> set (open_list s)" by (rule set_remove_nth)
  have lrest: "length ?rest = length (open_list s) - 1" using ne by (rule length_remove_nth)
  have lopen: "1 \<le> length (open_list s)" using ne by (cases "open_list s") simp_all
  from inv have si: "searchInv p st s"
    and io: "\<forall>n \<in> set (open_list s). interior p (node_x n) (node_y n)"
    and di: "distinct (map node_id (closed_list s))"
    and op: "olderParents st (closed_list s)"
    by (simp_all add: totalInv_def list_all_iff)
  have si': "searchInv p st s'" using si ne it by (rule searchInv_planIter)
  have top: "topOf j s \<in> set (open_list s)" using ne by (rule topOf_in_open)
  from planIter_Continue [OF it] show ?thesis
  proof (elim disjE conjE exE)
    assume c: "closed_list s' = closed_list s" and o: "open_list s' = ?rest"
    have "totalInv p st s'"
      using si' io di op rest c o by (auto simp add: totalInv_def list_all_iff)
    moreover have l': "length (open_list s') = length (open_list s) - 1"
      using o lrest by simp
    have "budget p motions s' < budget p motions s"
      unfolding budget_def c l' using lopen by linarith
    ultimately show ?thesis by simp
  next
    fix jps
    assume ncl: "\<not> inClosed (closed_list s) (topOf j s)"
      and c: "closed_list s' = topOf j s # closed_list s"
      and jp: "jumpPoints p d (closed_list s) (topOf j s) gl motions = Inr jps"
      and o: "open_list s' = take ?i (open_list s) @ drop (Suc ?i) (open_list s) @ pushed gl jps"
    from io top have "interior p (node_x (topOf j s)) (node_y (topOf j s))" by blast
    from jumpPoints_total [OF wf ol this d um, of "closed_list s" gl] jp
    have lj: "length jps \<le> length motions"
      and ij: "\<forall>n \<in> set jps. interior p (node_x n) (node_y n)" by auto
    have dist: "distinct (map node_id (closed_list s'))"
      using di ncl c by (auto simp add: inClosed_iff)
    have "topOf j s = st \<or> list_ex (\<lambda>m. node_id m = node_pid (topOf j s)) (closed_list s)"
      using si top unfolding searchInv_def list_ex_iff by blast
    with op c have older: "olderParents st (closed_list s')" by simp
    have io': "\<forall>n \<in> set (open_list s'). interior p (node_x n) (node_y n)"
    proof
      fix n assume "n \<in> set (open_list s')"
      with o have "n \<in> set (open_list s) \<or> n \<in> set (pushed gl jps)"
        by (auto dest: in_set_takeD in_set_dropD)
      with io ij set_pushed [of gl jps] show "interior p (node_x n) (node_y n)" by blast
    qed
    have inv': "totalInv p st s'"
      using si' io' dist older by (simp add: totalInv_def list_all_iff)
    have valid: "\<forall>n \<in> set (closed_list s'). validId p (node_id n)"
      using si' unfolding searchInv_def by blast
    from closed_length_bound [OF dist valid wellFormed_ns [OF wf]] c
    have "Suc (length (closed_list s)) \<le> nat (ns p)" by simp
    then obtain k where k: "nat (ns p) - length (closed_list s) = Suc k"
      by (cases "nat (ns p) - length (closed_list s)") simp_all
    then have k': "nat (ns p) - length (closed_list s') = k" using c by simp
    have lo: "length (open_list s') \<le> length (open_list s) - 1 + length motions"
      using o lrest lj length_pushed [of gl jps] by simp
    have "budget p motions s' < budget p motions s"
      unfolding budget_def k k' using lo lopen by simp
    with inv' show ?thesis by simp
  qed
qed

lemma planIter_total:
  assumes wf: "wellFormed p" and ol: "outlined p"
    and um: "\<forall>m \<in> set motions. unitMotion m"
    and d: "2 * (nx p + ny p) \<le> int d" "ns p \<le> int d"
    and st: "\<not> validId p (node_pid st)"
    and inv: "totalInv p st s" and ne: "open_list s \<noteq> []"
  shows "\<exists>r. planIter p motions d st gl j s = Inr r"
proof (cases "inClosed (closed_list s) (topOf j s)")
  case True
  then show ?thesis by (simp add: planIter_unfold)
next
  case ncl: False
  show ?thesis
  proof (cases "node_eq (topOf j s) gl")
    case True
    from totalInv_convert [OF wf inv ne st ncl True d(2)] ncl True
    show ?thesis by (auto simp add: planIter_unfold)
  next
    case False
    have top: "topOf j s \<in> set (open_list s)" using ne by (rule topOf_in_open)
    with inv have "interior p (node_x (topOf j s)) (node_y (topOf j s))"
      by (simp add: totalInv_def list_all_iff)
    from jumpPoints_total [OF wf ol this d(1) um, of "closed_list s" gl] ncl False
    show ?thesis by (auto simp add: planIter_unfold)
  qed
qed

lemma planLoop_total:
  assumes wf: "wellFormed p" and ol: "outlined p"
    and um: "\<forall>m \<in> set motions. unitMotion m"
    and d: "2 * (nx p + ny p) \<le> int d" "ns p \<le> int d"
    and st: "\<not> validId p (node_pid st)"
  shows "totalInv p st s \<Longrightarrow> budget p motions s \<le> length tops \<Longrightarrow>
         \<exists>found path ex. planLoop p motions d st gl tops s = Inr (found, path, ex)"
proof (induction tops arbitrary: s)
  case Nil
  then have "open_list s = []" by (simp add: budget_def)
  then show ?case by auto
next
  case (Cons j js)
  show ?case
  proof (cases "open_list s = []")
    case True
    then show ?thesis by auto
  next
    case False
    from planIter_total [OF wf ol um d st Cons.prems(1) False] obtain r where
      r: "planIter p motions d st gl j s = Inr r" by blast
    show ?thesis
    proof (cases r)
      case (Return f pa e)
      with r False show ?thesis by simp
    next
      case (Continue s')
      with r have it: "planIter p motions d st gl j s = Inr (Continue s')" by simp
      from totalInv_planIter [OF wf ol um d(1) Cons.prems(1) False it]
      have inv': "totalInv p st s'" and b: "budget p motions s' < budget p motions s"
        by simp_all
      from b Cons.prems(2) have "budget p motions s' \<le> length js" by simp
      from Cons.IH [OF inv' this] obtain f pa e where
        "planLoop p motions d st gl js s' = Inr (f, pa, e)" by blast
      with it False show ?thesis by simp
    qed
  qed
qed

lemma totalInv_init:
  "validId p (node_id st) \<Longrightarrow> interior p (node_x st) (node_y st) \<Longrightarrow>
   totalInv p st \<lparr>open_list = [st], closed_list = [], expand = [st]\<rparr>"
  by (simp add: totalInv_def searchInv_def)

subsection \<open>The outcomes of plan on an outlined grid\<close>

text \<open>
  On an outlined grid: a result of plan is either found = true with a non-empty path that
  starts with the start node, ends with a node equal to the goal and links each node to
  its parent, or found = false with the empty path. The first comes only from an iteration
  that pops a node equal to the goal which is not yet closed; the second is what the loop
  returns when the open list is empty. And from an interior start and with unit motions,
  plan does return one of them once the budgets are large enough. (The start carries a
  valid id and, as the data model says, no valid parent id.)
\<close>

theorem plan_outlined_outcomes:
  assumes "q = p\<lparr>costs := cs, start := st, goal := gl\<rparr>"
    and "validId q (node_id st)" "\<not> validId q (node_pid st)"
  shows "(plan p motions d tops cs st gl = Inr (found, path, ex) \<longrightarrow>
            (found \<and> path \<noteq> [] \<and> hd path = st \<and> node_eq (last path) gl \<and> parentChain path) \<or>
            (\<not> found \<and> path = [])) \<and>
         (planIter q motions d st gl j s = Inr (Return f pa e) \<longrightarrow>
            f \<and> node_eq (topOf j s) gl \<and> \<not> inClosed (closed_list s) (topOf j s)) \<and>
         (open_list s = [] \<longrightarrow> planLoop q motions d st gl tops s = Inr (False, [], expand s)) \<and>
         (wellFormed q \<and> outlined q \<and> interior q (node_x st) (node_y st) \<and>
          (\<forall>m \<in> set motions. unitMotion m) \<and>
          2 * (nx q + ny q) \<le> int d \<and> ns q \<le> int d \<and>
          (length motions + 1) * nat (ns q) + 1 \<le> length tops \<longrightarrow>
            (\<exists>found path ex. plan p motions d tops cs st gl = Inr (found, path, ex)))"
proof (intro conjI impI)
  assume r: "plan p motions d tops cs st gl = Inr (found, path, ex)"
  have "searchInv q st \<lparr>open_list = [st], closed_list = [], expand = [st]\<rparr>"
    using assms(2) by (rule searchInv_init)
  moreover from r have "planLoop q motions d st gl tops
      \<lparr>open_list = [st], closed_list = [], expand = [st]\<rparr> = Inr (found, path, ex)"
    by (simp add: plan_def assms(1))
  ultimately show "(found \<and> path \<noteq> [] \<and> hd path = st \<and> node_eq (last path) gl \<and>
                    parentChain path) \<or> (\<not> found \<and> path = [])"
    by (rule planLoop_outcomes [OF assms(3)])
next
  assume r: "planIter q motions d st gl j s = Inr (Return f pa e)"
  from planIter_Return [OF r]
  show "f" "node_eq (topOf j s) gl" "\<not> inClosed (closed_list s) (topOf j s)" by simp_all
next
  assume "open_list s = []"
  then show "planLoop q motions d st gl tops s = Inr (False, [], expand s)"
    by (cases tops) simp_all
next
  assume h: "wellFormed q \<and> outlined q \<and> interior q (node_x st) (node_y st) \<and>
          (\<forall>m \<in> set motions. unitMotion m) \<and>
          2 * (nx q + ny q) \<le> int d \<and> ns q \<le> int d \<and>
          (length motions + 1) * nat (ns q) + 1 \<le> length tops"
  then have wf: "wellFormed q" and ol: "outlined q"
    and um: "\<forall>m \<in> set motions. unitMotion m"
    and d: "2 * (nx q + ny q) \<le> int d" "ns q \<le> int d"
    and i: "interior q (node_x st) (node_y st)"
    and t: "(length motions + 1) * nat (ns q) + 1 \<le> length tops" by simp_all
  let ?s = "\<lparr>open_list = [st], closed_list = [], expand = [st]\<rparr>"
  have inv: "totalInv q st ?s" using assms(2) i by (rule totalInv_init)
  have "budget q motions ?s \<le> length tops" using t by (simp add: budget_def)
  from planLoop_total [OF wf ol um d assms(3) inv this, of gl]
  show "\<exists>found path ex. plan p motions d tops cs st gl = Inr (found, path, ex)"
    by (simp add: plan_def assms(1))
qed

lemma pairGrid_fields:
  "nx pairGrid = 4" "ny pairGrid = 3" "ns pairGrid = 12" "node_id (goal pairGrid) = 6"
  "length (costs pairGrid) = 12"
  by (simp_all add: pairGrid_def ns_def mkNode_def)

lemma pairGrid_blocked:
  "blockedAt pairGrid 0 = Inr True" "blockedAt pairGrid 1 = Inr True"
  "blockedAt pairGrid 2 = Inr True" "blockedAt pairGrid 3 = Inr True"
  "blockedAt pairGrid 4 = Inr True" "blockedAt pairGrid 5 = Inr False"
  "blockedAt pairGrid 6 = Inr False" "blockedAt pairGrid 7 = Inr True"
  "blockedAt pairGrid 8 = Inr True" "blockedAt pairGrid 9 = Inr True"
  "blockedAt pairGrid 10 = Inr True" "blockedAt pairGrid 11 = Inr True"
  by (simp_all add: blockedAt_def pairGrid_def threshold_def)

lemma pairGrid_self:
  "pairGrid\<lparr>costs := costs pairGrid, start := mkNode 1 1 0 0 5 (- 1),
            goal := mkNode 2 1 0 0 6 (- 1)\<rparr> = pairGrid"
  "pairGrid\<lparr>start := mkNode 1 1 0 0 5 (- 1), goal := mkNode 2 1 0 0 6 (- 1)\<rparr> = pairGrid"
  by (simp_all add: pairGrid_def)

lemma pairGrid_outlined: "wellFormed pairGrid \<and> outlined pairGrid"
proof -
  have u: "[0..3] = [0, 1, 2, (3::int)]" "[0..2] = [0, 1, (2::int)]"
    by (simp_all add: upto_rec1)
  show ?thesis
    by (simp add: wellFormed_def outlined_def pairGrid_fields interior_def grid2Index_def
          pairGrid_blocked u)
qed

lemma cellGrid_self:
  "cellGrid\<lparr>costs := costs cellGrid, start := mkNode 1 1 0 0 4 (- 1),
            goal := mkNode 2 2 0 0 8 (- 1)\<rparr> = cellGrid"
  "cellGrid\<lparr>start := mkNode 1 1 0 0 4 (- 1), goal := mkNode 2 2 0 0 8 (- 1)\<rparr> = cellGrid"
  by (simp_all add: cellGrid_def)

lemma cellGrid_plan:
  "plan cellGrid [east, west] 1 [0] (costs cellGrid) (mkNode 1 1 0 0 4 (- 1))
        (mkNode 2 2 0 0 8 (- 1))
     = Inr (False, [], [mkNode 1 1 0 0 4 (- 1)])"
  by (simp add: plan_def cellGrid_self planIter_unfold topOf_def inClosed_def node_eq_def
        cellGrid_jumpPoints del: One_nat_def jumpPoints.simps)

lemma pairGrid_jumpPoints:
  "\<exists>n. jumpPoints pairGrid (Suc (Suc 0)) [] (mkNode 1 1 0 0 5 (- 1)) (mkNode 2 1 0 0 6 (- 1))
          [east, west] = Inr [n] \<and> node_id n = 6 \<and> node_pid n = 5"
  by (simp add: jump_Suc node_eq_def grid2Index_def east_def west_def inClosed_def
        pairGrid_fields pairGrid_blocked)

lemma pairGrid_plan:
  "\<exists>n. plan pairGrid [east, west] 2 [0, 0] (costs pairGrid) (mkNode 1 1 0 0 5 (- 1))
          (mkNode 2 1 0 0 6 (- 1))
        = Inr (True, [mkNode 1 1 0 0 5 (- 1), n], [mkNode 1 1 0 0 5 (- 1), n]) \<and>
      node_id n = 6"
proof -
  from pairGrid_jumpPoints obtain n where
    n: "jumpPoints pairGrid (Suc (Suc 0)) [] (mkNode 1 1 0 0 5 (- 1)) (mkNode 2 1 0 0 6 (- 1))
          [east, west] = Inr [n]" "node_id n = 6" "node_pid n = 5" by blast
  have "plan pairGrid [east, west] (Suc (Suc 0)) [0, 0] (costs pairGrid)
          (mkNode 1 1 0 0 5 (- 1)) (mkNode 2 1 0 0 6 (- 1))
        = Inr (True, [mkNode 1 1 0 0 5 (- 1), n], [mkNode 1 1 0 0 5 (- 1), n])"
    by (simp add: plan_def pairGrid_self planIter_unfold topOf_def inClosed_def node_eq_def
          n convertClosedListToPath_def findById_def validId_def pairGrid_fields
          del: jumpPoints.simps)
  with n(2) show ?thesis by (auto simp add: numeral_2_eq_2)
qed

text \<open>
  On the 4x3 outlined grid, from the cell \<open>(1, 1)\<close> to the cell \<open>(2, 1)\<close>: the
  search succeeds with the path of these two cells, and it returns for large budgets; on
  the grid whose only free cell is the centre the search from the centre fails with the
  empty path.
\<close>

theorem plan_outlined_example:
  "validId pairGrid 5 \<and> \<not> validId pairGrid (- 1) \<and>
   wellFormed pairGrid \<and> outlined pairGrid \<and> interior pairGrid 1 1 \<and>
   list_all unitMotion [east, west] \<and>
   (\<exists>found path ex.
      plan pairGrid [east, west] 14 (replicate 37 0) (costs pairGrid) (mkNode 1 1 0 0 5 (- 1))
        (mkNode 2 1 0 0 6 (- 1)) = Inr (found, path, ex)) \<and>
   (\<exists>path ex.
      plan pairGrid [east, west] 2 [0, 0] (costs pairGrid) (mkNode 1 1 0 0 5 (- 1))
        (mkNode 2 1 0 0 6 (- 1)) = Inr (True, path, ex) \<and>
      map node_id path = [5, 6] \<and> hd path = mkNode 1 1 0 0 5 (- 1) \<and> parentChain path) \<and>
   plan cellGrid [east, west] 1 [0] (costs cellGrid) (mkNode 1 1 0 0 4 (- 1))
        (mkNode 2 2 0 0 8 (- 1))
     = Inr (False, [], [mkNode 1 1 0 0 4 (- 1)])"
proof -
  let ?S = "mkNode 1 1 0 0 5 (- 1)" and ?G = "mkNode 2 1 0 0 6 (- 1)"
  have v: "validId pairGrid 5" "\<not> validId pairGrid (- 1)"
    by (simp_all add: validId_def pairGrid_fields)
  then have vs: "validId pairGrid (node_id ?S)" "\<not> validId pairGrid (node_pid ?S)"
    by simp_all
  have i: "interior pairGrid 1 1" by (simp add: interior_def pairGrid_fields)
  have u: "list_all unitMotion [east, west]"
    by (simp add: unitMotion_def east_def west_def)
  note wo = pairGrid_outlined
  note T = plan_outlined_outcomes [OF pairGrid_self(1) [symmetric] vs]
  have tot: "\<exists>found path ex.
      plan pairGrid [east, west] 14 (replicate 37 0) (costs pairGrid) ?S ?G
        = Inr (found, path, ex)"
    using conjunct2 [OF conjunct2 [OF conjunct2 [OF T [of "[east, west]" 14 "replicate 37 0"]]]]
      wo i u
    by (simp add: pairGrid_fields list_all_iff)
  from pairGrid_plan obtain n where
    n: "plan pairGrid [east, west] 2 [0, 0] (costs pairGrid) ?S ?G
          = Inr (True, [?S, n], [?S, n])" "node_id n = 6" by blast
  from conjunct1 [OF T [of "[east, west]" 2 "[0, 0]" True "[?S, n]" "[?S, n]"]] n(1)
  have "hd [?S, n] = ?S \<and> parentChain [?S, n]" by simp
  with n have ok: "\<exists>path ex.
      plan pairGrid [east, west] 2 [0, 0] (costs pairGrid) ?S ?G = Inr (True, path, ex) \<and>
      map node_id path = [5, 6] \<and> hd path = ?S \<and> parentChain path"
    by (intro exI [of _ "[?S, n]"]) simp
  from v wo i u tot ok cellGrid_plan show ?thesis by (intro conjI) simp_all
qed

subsection \<open>The reads of detectForceNeighbor, one by one\<close>

lemma orElse_False_right: "orElse a (Inr False) = a"
  by (cases a) (auto simp add: orElse_def)

lemma detect_as_pairs:
  assumes "neighbourCells point motion = [(a1, b1), (a2, b2), (a3, b3), (a4, b4)]"
  shows "detectForceNeighbor p point motion =
           orElse (forcedPair p (grid2Index p a1 b1) (grid2Index p a2 b2))
                  (forcedPair p (grid2Index p a3 b3) (grid2Index p a4 b4))"
  using assms unfolding neighbourCells_def detectForceNeighbor_def Let_def
  by (auto simp add: orElse_False_right split: if_splits)

lemma blockedAt_cases:
  "blockedAt p i = Inl OutOfBounds \<or> blockedAt p i = Inr True \<or> blockedAt p i = Inr False"
  by (auto simp add: blockedAt_def)

lemma pairs_OutOfBounds_iff:
  assumes "r1 = Inl OutOfBounds \<or> r1 = Inr True \<or> r1 = Inr False"
    and "r2 = Inl OutOfBounds \<or> r2 = Inr True \<or> r2 = Inr False"
    and "r3 = Inl OutOfBounds \<or> r3 = Inr True \<or> r3 = Inr False"
    and "r4 = Inl OutOfBounds \<or> r4 = Inr True \<or> r4 = Inr False"
  shows "orElse (bindE r1 (\<lambda>b. if b then bindE r2 (\<lambda>c. Inr (\<not> c)) else Inr False))
                (bindE r3 (\<lambda>b. if b then bindE r4 (\<lambda>c. Inr (\<not> c)) else Inr False))
           = Inl OutOfBounds \<longleftrightarrow>
         r1 = Inl OutOfBounds \<or> r1 = Inr True \<and> r2 = Inl OutOfBounds \<or>
         (r1 = Inr False \<or> r1 = Inr True \<and> r2 = Inr True) \<and>
         (r3 = Inl OutOfBounds \<or> r3 = Inr True \<and> r4 = Inl OutOfBounds)"
  using assms by (elim disjE) simp_all

lemma detect_OutOfBounds_iff:
  assumes "neighbourCells point motion = [(a1, b1), (a2, b2), (a3, b3), (a4, b4)]"
  shows "detectForceNeighbor p point motion = Inl OutOfBounds \<longleftrightarrow>
         blockedAt p (grid2Index p a1 b1) = Inl OutOfBounds \<or>
         blockedAt p (grid2Index p a1 b1) = Inr True \<and>
           blockedAt p (grid2Index p a2 b2) = Inl OutOfBounds \<or>
         (blockedAt p (grid2Index p a1 b1) = Inr False \<or>
          blockedAt p (grid2Index p a1 b1) = Inr True \<and>
            blockedAt p (grid2Index p a2 b2) = Inr True) \<and>
         (blockedAt p (grid2Index p a3 b3) = Inl OutOfBounds \<or>
          blockedAt p (grid2Index p a3 b3) = Inr True \<and>
            blockedAt p (grid2Index p a4 b4) = Inl OutOfBounds)"
  unfolding detect_as_pairs [OF assms] forcedPair_def
  by (rule pairs_OutOfBounds_iff) (rule blockedAt_cases)+

lemma interior_detect_spec:
  assumes "wellFormed p" "interior p (node_x point) (node_y point)" "unitMotion motion"
  shows "detectForceNeighbor p point motion =
           Inr (forcedSpec p (node_x point) (node_y point) (node_x motion) (node_y motion))"
  using detect_refines [OF interior_readable [OF assms]] .

subsection \<open>Border cells: reads outside the array and reads of another row\<close>

lemma grid2Index_costs [simp]: "grid2Index (p\<lparr>costs := cs\<rparr>) a b = grid2Index p a b"
  by (simp add: grid2Index_def)

lemma blockedAt_costs:
  "blockedAt (p\<lparr>costs := cs\<rparr>) i =
     (if 0 \<le> i \<and> i < int (length cs) then Inr (threshold p \<le> real (unat (cs ! nat i)))
      else Inl OutOfBounds)"
  by (simp add: blockedAt_def threshold_def)

lemma nat_index: "0 \<le> i \<Longrightarrow> i < int n \<Longrightarrow> nat i < n"
  by linarith

lemma blockedAt_free:
  assumes "0 < threshold p"
  shows "blockedAt (p\<lparr>costs := replicate n 0\<rparr>) i =
           (if 0 \<le> i \<and> i < int n then Inr False else Inl OutOfBounds)"
proof (cases "0 \<le> i \<and> i < int n")
  case True
  then have "nat i < n" by (simp add: nat_index)
  then have "replicate n (0::8 word) ! nat i = 0" by simp
  with True assms show ?thesis by (simp add: blockedAt_costs)
next
  case False
  then show ?thesis by (auto simp add: blockedAt_costs)
qed

lemma nth_mark:
  "j < length xs \<Longrightarrow> xs[i := v] ! j = (if i = j then v else xs ! j)"
  by (cases "i = j") simp_all

lemma blockedAt_marked1:
  assumes "0 < threshold p" "threshold p \<le> 255" "0 \<le> k"
  shows "blockedAt (p\<lparr>costs := (replicate n 0)[nat k := 255]\<rparr>) i =
           (if 0 \<le> i \<and> i < int n then Inr (i = k) else Inl OutOfBounds)"
proof (cases "0 \<le> i \<and> i < int n")
  case True
  then have "nat i < n" by (simp add: nat_index)
  then have "(replicate n (0::8 word))[nat k := 255] ! nat i = (if nat k = nat i then 255 else 0)"
    by (simp add: nth_mark)
  moreover have "nat k = nat i \<longleftrightarrow> i = k" using True assms(3) by auto
  ultimately show ?thesis using True assms(1,2) by (simp add: blockedAt_costs)
next
  case False
  then show ?thesis by (auto simp add: blockedAt_costs)
qed

lemma blockedAt_marked2:
  assumes "0 < threshold p" "threshold p \<le> 255" "0 \<le> k" "0 \<le> l"
  shows "blockedAt (p\<lparr>costs := (replicate n 0)[nat k := 255, nat l := 255]\<rparr>) i =
           (if 0 \<le> i \<and> i < int n then Inr (i = k \<or> i = l) else Inl OutOfBounds)"
proof (cases "0 \<le> i \<and> i < int n")
  case True
  then have "nat i < n" by (simp add: nat_index)
  then have "(replicate n (0::8 word))[nat k := 255, nat l := 255] ! nat i
               = (if nat l = nat i \<or> nat k = nat i then 255 else 0)"
    by (simp add: nth_mark)
  moreover have "nat k = nat i \<longleftrightarrow> i = k" "nat l = nat i \<longleftrightarrow> i = l"
    using True assms(3,4) by auto
  ultimately show ?thesis using True assms(1,2) by (auto simp add: blockedAt_costs)
next
  case False
  then show ?thesis by (auto simp add: blockedAt_costs)
qed

lemma inGrid_index_inj:
  assumes "inGrid p a b" "inGrid p c d" "grid2Index p a b = grid2Index p c d"
  shows "a = c \<and> b = d"
proof -
  from inGrid_index [OF assms(1)] inGrid_index [OF assms(2)] assms(3) have "b = d" by simp
  with assms(3) show ?thesis by (simp add: grid2Index_def)
qed

lemma west_cells:
  "neighbourCells point west =
     [(node_x point, node_y point + 1), (node_x point - 1, node_y point + 1),
      (node_x point, node_y point - 1), (node_x point - 1, node_y point - 1)]"
  by (simp add: neighbourCells_def west_def Let_def)

lemma east_cells:
  "neighbourCells point east =
     [(node_x point, node_y point + 1), (node_x point + 1, node_y point + 1),
      (node_x point, node_y point - 1), (node_x point + 1, node_y point - 1)]"
  by (simp add: neighbourCells_def east_def Let_def)

lemma east_west_unit: "unitMotion east" "unitMotion west"
  by (simp_all add: unitMotion_def east_def west_def)

text \<open>A cell of the top row, moving east: the first read is beyond the end of the array.\<close>

lemma border_top:
  assumes wf: "wellFormed p" and x: "0 \<le> node_x point" and y: "node_y point = ny p - 1"
  shows "detectForceNeighbor p point east = Inl OutOfBounds"
proof -
  have "grid2Index p (node_x point) (node_y point + 1) = node_x point + ns p"
    using y by (simp add: grid2Index_def ns_def)
  then have "blockedAt p (grid2Index p (node_x point) (node_y point + 1)) = Inl OutOfBounds"
    using wf x by (simp add: blockedAt_def wellFormed_def)
  then show ?thesis by (simp add: detect_OutOfBounds_iff [OF east_cells])
qed

text \<open>
  A cell of the bottom row, moving east over free cells: the first test fails and the
  third read is at a negative index.
\<close>

lemma border_bottom:
  assumes wf: "wellFormed p" and th: "0 < threshold p"
    and g: "inGrid p (node_x point) (node_y point)" and y: "node_y point = 0"
    and ny: "node_y point \<noteq> ny p - 1"
  shows "detectForceNeighbor (p\<lparr>costs := replicate (length (costs p)) 0\<rparr>) point east
           = Inl OutOfBounds"
proof -
  let ?q = "p\<lparr>costs := replicate (length (costs p)) 0\<rparr>"
  have len: "int (length (costs p)) = ns p" using wf by (simp add: wellFormed_def)
  have "inGrid p (node_x point) (node_y point + 1)" using g y ny by (auto simp add: inGrid_def)
  from inGrid_index [OF this]
  have c1: "blockedAt ?q (grid2Index p (node_x point) (node_y point + 1)) = Inr False"
    using th len by (simp add: blockedAt_free)
  have "grid2Index p (node_x point) (node_y point - 1) < 0"
    using g y by (simp add: grid2Index_def inGrid_def)
  then have c3: "blockedAt ?q (grid2Index p (node_x point) (node_y point - 1)) = Inl OutOfBounds"
    using th by (simp add: blockedAt_free)
  from c1 c3 show ?thesis
    by (simp add: detect_OutOfBounds_iff [OF east_cells])
qed

text \<open>
  A cell of the first column in a middle row, moving west: with the cell above marked as
  an obstacle, the answer is decided by the cost at the index of the cell \<open>(-1, y + 1)\<close>,
  which is the last cell of the row \<open>y\<close>.
\<close>

lemma border_left:
  assumes wf: "wellFormed p" and th: "0 < threshold p" "threshold p \<le> 255"
    and x: "node_x point = 0" and y: "1 \<le> node_y point" "node_y point \<le> ny p - 2"
    and i1: "i1 = grid2Index p (node_x point) (node_y point + 1)"
    and i2: "i2 = grid2Index p (node_x point - 1) (node_y point + 1)"
    and n: "n = length (costs p)"
  shows "detectForceNeighbor (p\<lparr>costs := (replicate n 0)[nat i1 := 255]\<rparr>) point west
           = Inr True \<and>
         detectForceNeighbor (p\<lparr>costs := (replicate n 0)[nat i1 := 255, nat i2 := 255]\<rparr>)
           point west = Inr False \<and>
         0 \<le> i2 \<and> i2 < ns p \<and> i2 div nx p \<noteq> node_y point + 1"
proof -
  let ?y = "node_y point"
  have len: "int n = ns p" using wf n by (simp add: wellFormed_def)
  have nx: "0 < nx p" using wf by (simp add: wellFormed_def)
  have g1: "inGrid p 0 (?y + 1)" and g2: "inGrid p (nx p - 1) ?y" and g3: "inGrid p 0 (?y - 1)"
    using y nx by (auto simp add: inGrid_def)
  have e1: "i1 = grid2Index p 0 (?y + 1)" using i1 x by simp
  have e2: "i2 = grid2Index p (nx p - 1) ?y"
    using i2 x by (simp add: grid2Index_def algebra_simps)
  have e3: "grid2Index p (node_x point) (?y - 1) = grid2Index p 0 (?y - 1)" using x by simp
  note r1 = inGrid_index [OF g1, folded e1]
  note r2 = inGrid_index [OF g2, folded e2]
  note r3 = inGrid_index [OF g3]
  have d12: "i1 \<noteq> i2" using inGrid_index_inj [OF g1 g2] e1 e2 by auto
  have d31: "grid2Index p 0 (?y - 1) \<noteq> i1" using inGrid_index_inj [OF g3 g1] e1 by auto
  have d32: "grid2Index p 0 (?y - 1) \<noteq> i2" using inGrid_index_inj [OF g3 g2] e2 nx by auto
  have a: "detectForceNeighbor (p\<lparr>costs := (replicate n 0)[nat i1 := 255]\<rparr>) point west
             = Inr True"
    unfolding detect_as_pairs [OF west_cells] forcedPair_def grid2Index_costs
      i1 [symmetric] i2 [symmetric]
    using th r1 r2 d12 len by (simp add: blockedAt_marked1)
  have b: "detectForceNeighbor (p\<lparr>costs := (replicate n 0)[nat i1 := 255, nat i2 := 255]\<rparr>)
             point west = Inr False"
    unfolding detect_as_pairs [OF west_cells] forcedPair_def grid2Index_costs
      i1 [symmetric] i2 [symmetric] e3
    using th r1 r2 r3 d12 d31 d32 len by (simp add: blockedAt_marked2)
  from a b r2 show ?thesis by simp
qed

text \<open>
  A cell of the last column in a middle row, moving east, with the cell above marked as
  an obstacle: the second read is at the index of the cell \<open>(nx, y + 1)\<close>, which is
  beyond the array in the row below the top one and the first cell of the row \<open>y + 2\<close>
  otherwise; there it decides the answer.
\<close>

lemma border_right:
  assumes wf: "wellFormed p" and th: "0 < threshold p" "threshold p \<le> 255"
    and x: "node_x point = nx p - 1" and y: "1 \<le> node_y point" "node_y point \<le> ny p - 2"
    and i1: "i1 = grid2Index p (node_x point) (node_y point + 1)"
    and i2: "i2 = grid2Index p (node_x point + 1) (node_y point + 1)"
    and n: "n = length (costs p)"
  shows "detectForceNeighbor (p\<lparr>costs := (replicate n 0)[nat i1 := 255]\<rparr>) point east
           = Inl OutOfBounds \<or>
         detectForceNeighbor (p\<lparr>costs := (replicate n 0)[nat i1 := 255]\<rparr>) point east
           = Inr True \<and>
         detectForceNeighbor (p\<lparr>costs := (replicate n 0)[nat i1 := 255, nat i2 := 255]\<rparr>)
           point east = Inr False \<and>
         0 \<le> i2 \<and> i2 < ns p \<and> i2 div nx p \<noteq> node_y point + 1"
proof -
  let ?y = "node_y point"
  have len: "int n = ns p" using wf n by (simp add: wellFormed_def)
  have nx: "0 < nx p" using wf by (simp add: wellFormed_def)
  have g1: "inGrid p (nx p - 1) (?y + 1)" and g3: "inGrid p (nx p - 1) (?y - 1)"
    using y nx by (auto simp add: inGrid_def)
  have e1: "i1 = grid2Index p (nx p - 1) (?y + 1)" using i1 x by simp
  have e2: "i2 = grid2Index p 0 (?y + 2)"
    using i2 x by (simp add: grid2Index_def algebra_simps)
  have e3: "grid2Index p (node_x point) (?y - 1) = grid2Index p (nx p - 1) (?y - 1)"
    using x by simp
  note r1 = inGrid_index [OF g1, folded e1]
  note r3 = inGrid_index [OF g3]
  show ?thesis
  proof (cases "?y = ny p - 2")
    case True
    then have "i2 = ns p" using e2 by (simp add: grid2Index_def ns_def)
    then have "detectForceNeighbor (p\<lparr>costs := (replicate n 0)[nat i1 := 255]\<rparr>) point east
                 = Inl OutOfBounds"
      unfolding detect_OutOfBounds_iff [OF east_cells] grid2Index_costs
        i1 [symmetric] i2 [symmetric]
      using th r1 len by (simp add: blockedAt_marked1)
    then show ?thesis by simp
  next
    case False
    with y have g2: "inGrid p 0 (?y + 2)" using nx by (auto simp add: inGrid_def)
    note r2 = inGrid_index [OF g2, folded e2]
    have d12: "i1 \<noteq> i2" using inGrid_index_inj [OF g1 g2] e1 e2 by auto
    have d31: "grid2Index p (nx p - 1) (?y - 1) \<noteq> i1"
      using inGrid_index_inj [OF g3 g1] e1 by auto
    have d32: "grid2Index p (nx p - 1) (?y - 1) \<noteq> i2"
      using inGrid_index_inj [OF g3 g2] e2 by auto
    have a: "detectForceNeighbor (p\<lparr>costs := (replicate n 0)[nat i1 := 255]\<rparr>) point east
               = Inr True"
      unfolding detect_as_pairs [OF east_cells] forcedPair_def grid2Index_costs
        i1 [symmetric] i2 [symmetric]
      using th r1 r2 d12 len by (simp add: blockedAt_marked1)
    have b: "detectForceNeighbor (p\<lparr>costs := (replicate n 0)[nat i1 := 255, nat i2 := 255]\<rparr>)
               point east = Inr False"
      unfolding detect_as_pairs [OF east_cells] forcedPair_def grid2Index_costs
        i1 [symmetric] i2 [symmetric] e3
      using th r1 r2 r3 d12 d31 d32 len by (simp add: blockedAt_marked2)
    from a b r2 show ?thesis by simp
  qed
qed

lemma border_reads:
  assumes wf: "wellFormed p" and th: "0 < threshold p" "threshold p \<le> 255"
    and g: "inGrid p (node_x point) (node_y point)"
    and b: "\<not> interior p (node_x point) (node_y point)"
  shows "\<exists>m cs. unitMotion m \<and> length cs = length (costs p) \<and>
           (detectForceNeighbor (p\<lparr>costs := cs\<rparr>) point m = Inl OutOfBounds \<or>
            (\<exists>a b v. (a, b) \<in> set (neighbourCells point m) \<and> \<not> inGrid p a b \<and>
                0 \<le> grid2Index p a b \<and> grid2Index p a b < ns p \<and>
                grid2Index p a b div nx p \<noteq> b \<and>
                detectForceNeighbor (p\<lparr>costs := cs[nat (grid2Index p a b) := v]\<rparr>) point m
                  \<noteq> detectForceNeighbor (p\<lparr>costs := cs\<rparr>) point m))"
proof -
  let ?x = "node_x point" and ?y = "node_y point"
  let ?n = "length (costs p)"
  let ?z = "replicate ?n (0::8 word)"
  from g have x0: "0 \<le> ?x" by (simp add: inGrid_def)
  have "?y = ny p - 1 \<or> (?y = 0 \<and> ?y \<noteq> ny p - 1) \<or>
        (1 \<le> ?y \<and> ?y \<le> ny p - 2 \<and> ?x = 0) \<or>
        (1 \<le> ?y \<and> ?y \<le> ny p - 2 \<and> ?x = nx p - 1)"
    using g b unfolding inGrid_def interior_def by arith
  then consider (top) "?y = ny p - 1" | (bottom) "?y = 0" "?y \<noteq> ny p - 1"
    | (left) "1 \<le> ?y" "?y \<le> ny p - 2" "?x = 0"
    | (right) "1 \<le> ?y" "?y \<le> ny p - 2" "?x = nx p - 1"
    by blast
  then show ?thesis
  proof cases
    case top
    from border_top [OF wf x0 top]
    have "detectForceNeighbor (p\<lparr>costs := costs p\<rparr>) point east = Inl OutOfBounds" by simp
    with east_west_unit(1) show ?thesis by blast
  next
    case bottom
    from border_bottom [OF wf th(1) g bottom]
    have "detectForceNeighbor (p\<lparr>costs := ?z\<rparr>) point east = Inl OutOfBounds" .
    moreover have "length ?z = ?n" by simp
    ultimately show ?thesis using east_west_unit(1) by blast
  next
    case left
    let ?i1 = "grid2Index p ?x (?y + 1)" and ?i2 = "grid2Index p (?x - 1) (?y + 1)"
    let ?cs = "?z[nat ?i1 := 255]"
    from border_left [OF wf th left(3) left(1,2) refl refl refl]
    have d: "detectForceNeighbor (p\<lparr>costs := ?cs[nat ?i2 := 255]\<rparr>) point west
               \<noteq> detectForceNeighbor (p\<lparr>costs := ?cs\<rparr>) point west"
      and r: "0 \<le> ?i2" "?i2 < ns p" "?i2 div nx p \<noteq> ?y + 1" by simp_all
    have c: "(?x - 1, ?y + 1) \<in> set (neighbourCells point west)" by (simp add: west_cells)
    have o: "\<not> inGrid p (?x - 1) (?y + 1)" using left(3) by (simp add: inGrid_def)
    have l: "length ?cs = ?n" by simp
    from d r c o l east_west_unit(2) show ?thesis by blast
  next
    case right
    let ?i1 = "grid2Index p ?x (?y + 1)" and ?i2 = "grid2Index p (?x + 1) (?y + 1)"
    let ?cs = "?z[nat ?i1 := 255]"
    have l: "length ?cs = ?n" by simp
    from border_right [OF wf th right(3) right(1,2) refl refl refl]
    show ?thesis
    proof
      assume "detectForceNeighbor (p\<lparr>costs := ?cs\<rparr>) point east = Inl OutOfBounds"
      with l east_west_unit(1) show ?thesis by blast
    next
      assume "detectForceNeighbor (p\<lparr>costs := ?cs\<rparr>) point east = Inr True \<and>
         detectForceNeighbor (p\<lparr>costs := ?cs[nat ?i2 := 255]\<rparr>) point east = Inr False \<and>
         0 \<le> ?i2 \<and> ?i2 < ns p \<and> ?i2 div nx p \<noteq> ?y + 1"
      then have d: "detectForceNeighbor (p\<lparr>costs := ?cs[nat ?i2 := 255]\<rparr>) point east
               \<noteq> detectForceNeighbor (p\<lparr>costs := ?cs\<rparr>) point east"
        and r: "0 \<le> ?i2" "?i2 < ns p" "?i2 div nx p \<noteq> ?y + 1" by simp_all
      have c: "(?x + 1, ?y + 1) \<in> set (neighbourCells point east)" by (simp add: east_cells)
      have o: "\<not> inGrid p (?x + 1) (?y + 1)" using right(3) by (simp add: inGrid_def)
      from d r c o l east_west_unit(1) show ?thesis by blast
    qed
  qed
qed

text \<open>
  C10: detectForceNeighbor reads the cost array without a bounds check. It computes its
  answer from the four cells of the motion's branch, in the order of the source, and it
  reads outside the array exactly when a read that this order reaches has its index
  outside the array, be it the first, the second, the third or the fourth. For an
  interior cell (1 <= x <= nx-2, 1 <= y <= ny-2) of a grid with one cost per cell and a
  unit motion, all four cells are cells of the grid, their indices lie in [0, nx*ny) in
  the row of the cell, and the function returns the answer of the forced-neighbour rule
  on them. For a cell on the border of the grid there is a unit motion and a computed cell
  whose index is outside [0, nx*ny) or belongs to a different row; and where obstacle and
  free costs both exist, there are a unit motion and costs for which the function reads
  outside the array or its answer is decided by the cost of a cell of a different row.
\<close>

theorem detectForceNeighbor_reads_unchecked:
  "(interior p (node_x point) (node_y point) \<and> unitMotion motion \<longrightarrow>
      (\<forall>(a, b) \<in> set (neighbourCells point motion).
          inGrid p a b \<and> 0 \<le> grid2Index p a b \<and> grid2Index p a b < ns p \<and>
          grid2Index p a b div nx p = b)) \<and>
   (wellFormed p \<and> interior p (node_x point) (node_y point) \<and> unitMotion motion \<longrightarrow>
      detectForceNeighbor p point motion =
        Inr (forcedSpec p (node_x point) (node_y point) (node_x motion) (node_y motion))) \<and>
   (neighbourCells point motion = [(a1, b1), (a2, b2), (a3, b3), (a4, b4)] \<longrightarrow>
      detectForceNeighbor p point motion =
        orElse (forcedPair p (grid2Index p a1 b1) (grid2Index p a2 b2))
               (forcedPair p (grid2Index p a3 b3) (grid2Index p a4 b4)) \<and>
      (detectForceNeighbor p point motion = Inl OutOfBounds \<longleftrightarrow>
         blockedAt p (grid2Index p a1 b1) = Inl OutOfBounds \<or>
         blockedAt p (grid2Index p a1 b1) = Inr True \<and>
           blockedAt p (grid2Index p a2 b2) = Inl OutOfBounds \<or>
         (blockedAt p (grid2Index p a1 b1) = Inr False \<or>
          blockedAt p (grid2Index p a1 b1) = Inr True \<and>
            blockedAt p (grid2Index p a2 b2) = Inr True) \<and>
         (blockedAt p (grid2Index p a3 b3) = Inl OutOfBounds \<or>
          blockedAt p (grid2Index p a3 b3) = Inr True \<and>
            blockedAt p (grid2Index p a4 b4) = Inl OutOfBounds))) \<and>
   (inGrid p (node_x point) (node_y point) \<and> \<not> interior p (node_x point) (node_y point) \<longrightarrow>
      (\<exists>m. unitMotion m \<and>
         (\<exists>(a, b) \<in> set (neighbourCells point m).
             grid2Index p a b < 0 \<or> ns p \<le> grid2Index p a b \<or>
             grid2Index p a b div nx p \<noteq> b))) \<and>
   (wellFormed p \<and> 0 < threshold p \<and> threshold p \<le> 255 \<and>
    inGrid p (node_x point) (node_y point) \<and> \<not> interior p (node_x point) (node_y point) \<longrightarrow>
      (\<exists>m cs. unitMotion m \<and> length cs = length (costs p) \<and>
         (detectForceNeighbor (p\<lparr>costs := cs\<rparr>) point m = Inl OutOfBounds \<or>
          (\<exists>a b v. (a, b) \<in> set (neighbourCells point m) \<and> \<not> inGrid p a b \<and>
              0 \<le> grid2Index p a b \<and> grid2Index p a b < ns p \<and>
              grid2Index p a b div nx p \<noteq> b \<and>
              detectForceNeighbor (p\<lparr>costs := cs[nat (grid2Index p a b) := v]\<rparr>) point m
                \<noteq> detectForceNeighbor (p\<lparr>costs := cs\<rparr>) point m))))"
proof (intro conjI impI)
  assume h: "interior p (node_x point) (node_y point) \<and> unitMotion motion"
  show "\<forall>(a, b) \<in> set (neighbourCells point motion).
          inGrid p a b \<and> 0 \<le> grid2Index p a b \<and> grid2Index p a b < ns p \<and>
          grid2Index p a b div nx p = b"
  proof (clarify)
    fix a b assume "(a, b) \<in> set (neighbourCells point motion)"
    with h have "inGrid p a b" by (blast intro: interior_cells_inGrid)
    with inGrid_index [of p a b]
    show "inGrid p a b \<and> 0 \<le> grid2Index p a b \<and> grid2Index p a b < ns p \<and>
          grid2Index p a b div nx p = b" by simp
  qed
next
  assume "wellFormed p \<and> interior p (node_x point) (node_y point) \<and> unitMotion motion"
  then show "detectForceNeighbor p point motion =
        Inr (forcedSpec p (node_x point) (node_y point) (node_x motion) (node_y motion))"
    by (simp add: interior_detect_spec)
next
  assume c: "neighbourCells point motion = [(a1, b1), (a2, b2), (a3, b3), (a4, b4)]"
  show "detectForceNeighbor p point motion =
        orElse (forcedPair p (grid2Index p a1 b1) (grid2Index p a2 b2))
               (forcedPair p (grid2Index p a3 b3) (grid2Index p a4 b4))"
    using c by (rule detect_as_pairs)
  show "detectForceNeighbor p point motion = Inl OutOfBounds \<longleftrightarrow>
         blockedAt p (grid2Index p a1 b1) = Inl OutOfBounds \<or>
         blockedAt p (grid2Index p a1 b1) = Inr True \<and>
           blockedAt p (grid2Index p a2 b2) = Inl OutOfBounds \<or>
         (blockedAt p (grid2Index p a1 b1) = Inr False \<or>
          blockedAt p (grid2Index p a1 b1) = Inr True \<and>
            blockedAt p (grid2Index p a2 b2) = Inr True) \<and>
         (blockedAt p (grid2Index p a3 b3) = Inl OutOfBounds \<or>
          blockedAt p (grid2Index p a3 b3) = Inr True \<and>
            blockedAt p (grid2Index p a4 b4) = Inl OutOfBounds)"
    using c by (rule detect_OutOfBounds_iff)
next
  assume h: "inGrid p (node_x point) (node_y point) \<and> \<not> interior p (node_x point) (node_y point)"
  then have pos: "0 < nx p" by (simp add: inGrid_def)
  from h border_cell_outside [of p point]
  obtain m a b where m: "unitMotion m" "(a, b) \<in> set (neighbourCells point m)" "\<not> inGrid p a b"
    by blast
  from outside_index [OF pos m(3)] m(1,2)
  show "\<exists>m. unitMotion m \<and>
         (\<exists>(a, b) \<in> set (neighbourCells point m).
             grid2Index p a b < 0 \<or> ns p \<le> grid2Index p a b \<or>
             grid2Index p a b div nx p \<noteq> b)"
    by blast
next
  assume "wellFormed p \<and> 0 < threshold p \<and> threshold p \<le> 255 \<and>
    inGrid p (node_x point) (node_y point) \<and> \<not> interior p (node_x point) (node_y point)"
  then show "\<exists>m cs. unitMotion m \<and> length cs = length (costs p) \<and>
         (detectForceNeighbor (p\<lparr>costs := cs\<rparr>) point m = Inl OutOfBounds \<or>
          (\<exists>a b v. (a, b) \<in> set (neighbourCells point m) \<and> \<not> inGrid p a b \<and>
              0 \<le> grid2Index p a b \<and> grid2Index p a b < ns p \<and>
              grid2Index p a b div nx p \<noteq> b \<and>
              detectForceNeighbor (p\<lparr>costs := cs[nat (grid2Index p a b) := v]\<rparr>) point m
                \<noteq> detectForceNeighbor (p\<lparr>costs := cs\<rparr>) point m))"
    by (intro border_reads) simp_all
qed

lemma notchGrid_wellFormed:
  "wellFormed notchGrid" "0 < threshold notchGrid" "threshold notchGrid \<le> 255"
  by (simp_all add: wellFormed_def ns_def threshold_def notchGrid_def)

text \<open>
  On the notch fixture: the query of the centre cell stays inside the array; the query of
  the corner cell \<open>(0, 0)\<close>, moving east, finds the cell above free and then reads the
  cell \<open>(0, -1)\<close> at the index -3: its third read.
\<close>

theorem detectForceNeighbor_reads_witness:
  "wellFormed notchGrid \<and> interior notchGrid 1 1 \<and> unitMotion east \<and>
   detectForceNeighbor notchGrid (mkNode 1 1 0 0 4 0) east
     = Inr (forcedSpec notchGrid 1 1 1 0) \<and>
   list_all (\<lambda>(a, b). inGrid notchGrid a b \<and> grid2Index notchGrid a b < 9)
     (neighbourCells (mkNode 1 1 0 0 4 0) east) \<and>
   neighbourCells (mkNode 0 0 0 0 0 0) east = [(0, 1), (1, 1), (0, - 1), (1, - 1)] \<and>
   blockedAt notchGrid (grid2Index notchGrid 0 1) = Inr False \<and>
   blockedAt notchGrid (grid2Index notchGrid 0 (- 1)) = Inl OutOfBounds \<and>
   detectForceNeighbor notchGrid (mkNode 0 0 0 0 0 0) east = Inl OutOfBounds \<and>
   inGrid notchGrid 0 0 \<and> \<not> interior notchGrid 0 0 \<and>
   0 < threshold notchGrid \<and> threshold notchGrid \<le> 255 \<and>
   (\<exists>m cs. unitMotion m \<and> length cs = length (costs notchGrid) \<and>
      (detectForceNeighbor (notchGrid\<lparr>costs := cs\<rparr>) (mkNode 0 0 0 0 0 0) m = Inl OutOfBounds \<or>
       (\<exists>a b v. (a, b) \<in> set (neighbourCells (mkNode 0 0 0 0 0 0) m) \<and>
           \<not> inGrid notchGrid a b \<and>
           0 \<le> grid2Index notchGrid a b \<and> grid2Index notchGrid a b < ns notchGrid \<and>
           grid2Index notchGrid a b div nx notchGrid \<noteq> b \<and>
           detectForceNeighbor (notchGrid\<lparr>costs := cs[nat (grid2Index notchGrid a b) := v]\<rparr>)
               (mkNode 0 0 0 0 0 0) m
             \<noteq> detectForceNeighbor (notchGrid\<lparr>costs := cs\<rparr>) (mkNode 0 0 0 0 0 0) m)))"
proof -
  let ?c = "mkNode 1 1 0 0 4 0" and ?o = "mkNode 0 0 0 0 0 0"
  note wf = notchGrid_wellFormed
  have i: "interior notchGrid 1 1" "inGrid notchGrid 0 0" "\<not> interior notchGrid 0 0"
    by (simp_all add: interior_def inGrid_def notchGrid_fields)
  have u: "unitMotion east" by (simp add: unitMotion_def east_def)
  have f: "node_x ?c = 1" "node_y ?c = 1" "node_x ?o = 0" "node_y ?o = 0"
          "node_x east = 1" "node_y east = 0"
    by (simp_all add: east_def)
  have n: "neighbourCells ?o east = [(0, 1), (1, 1), (0, - 1), (1, - 1)]"
    by (simp add: east_cells)
  have b: "blockedAt notchGrid (grid2Index notchGrid 0 1) = Inr False"
          "blockedAt notchGrid (grid2Index notchGrid 0 (- 1)) = Inl OutOfBounds"
    by (simp_all add: grid2Index_def notchGrid_fields notchGrid_blocked)
       (simp add: blockedAt_def)
  note T1 = detectForceNeighbor_reads_unchecked [of notchGrid ?c east]
  note T2 = detectForceNeighbor_reads_unchecked
              [of notchGrid ?o east 0 1 1 1 0 "- 1" 1 "- 1"]
  from conjunct1 [OF T1] i(1) u f
  have "\<forall>(a, b) \<in> set (neighbourCells ?c east).
          inGrid notchGrid a b \<and> grid2Index notchGrid a b < 9"
    by (auto simp add: notchGrid_fields)
  then have l: "list_all (\<lambda>(a, b). inGrid notchGrid a b \<and> grid2Index notchGrid a b < 9)
     (neighbourCells ?c east)"
    by (simp add: list_all_iff)
  from conjunct1 [OF conjunct2 [OF T1]] wf(1) i(1) u f
  have s: "detectForceNeighbor notchGrid ?c east = Inr (forcedSpec notchGrid 1 1 1 0)"
    by simp
  from conjunct1 [OF conjunct2 [OF conjunct2 [OF T2]]] n
  have "detectForceNeighbor notchGrid ?o east = Inl OutOfBounds \<longleftrightarrow>
         blockedAt notchGrid (grid2Index notchGrid 0 1) = Inl OutOfBounds \<or>
         blockedAt notchGrid (grid2Index notchGrid 0 1) = Inr True \<and>
           blockedAt notchGrid (grid2Index notchGrid 1 1) = Inl OutOfBounds \<or>
         (blockedAt notchGrid (grid2Index notchGrid 0 1) = Inr False \<or>
          blockedAt notchGrid (grid2Index notchGrid 0 1) = Inr True \<and>
            blockedAt notchGrid (grid2Index notchGrid 1 1) = Inr True) \<and>
         (blockedAt notchGrid (grid2Index notchGrid 0 (- 1)) = Inl OutOfBounds \<or>
          blockedAt notchGrid (grid2Index notchGrid 0 (- 1)) = Inr True \<and>
            blockedAt notchGrid (grid2Index notchGrid 1 (- 1)) = Inl OutOfBounds)"
    by blast
  with b have o: "detectForceNeighbor notchGrid ?o east = Inl OutOfBounds" by blast
  from conjunct2 [OF conjunct2 [OF conjunct2 [OF conjunct2 [OF T2]]]] wf i(2,3) f
  have e: "\<exists>m cs. unitMotion m \<and> length cs = length (costs notchGrid) \<and>
      (detectForceNeighbor (notchGrid\<lparr>costs := cs\<rparr>) ?o m = Inl OutOfBounds \<or>
       (\<exists>a b v. (a, b) \<in> set (neighbourCells ?o m) \<and>
           \<not> inGrid notchGrid a b \<and>
           0 \<le> grid2Index notchGrid a b \<and> grid2Index notchGrid a b < ns notchGrid \<and>
           grid2Index notchGrid a b div nx notchGrid \<noteq> b \<and>
           detectForceNeighbor (notchGrid\<lparr>costs := cs[nat (grid2Index notchGrid a b) := v]\<rparr>)
               ?o m
             \<noteq> detectForceNeighbor (notchGrid\<lparr>costs := cs\<rparr>) ?o m))"
    by simp
  from wf i u s l n b o e show ?thesis by (intro conjI)
qed

subsection \<open>plan on grids without an obstacle outline\<close>

lemma jumpPoints_needs_jump:
  "jumpPoints p d cl cur gl (ms1 @ m # ms2) = Inr jps \<Longrightarrow> \<exists>n. jump p d cur m = Inr n"
proof (induction ms1 arbitrary: jps)
  case Nil
  then show ?case by (cases "jump p d cur m") (simp_all)
next
  case (Cons a ms1)
  from Cons.prems
  obtain l where "jumpPoints p d cl cur gl (ms1 @ m # ms2) = Inr l"
    by (cases "jump p d cur a"; cases "jumpPoints p d cl cur gl (ms1 @ m # ms2)")
       (simp_all)
  then show ?case by (rule Cons.IH)
qed

lemma planLoop_needs_jump:
  assumes "\<not> node_eq st gl" "\<forall>n. jump q d st m \<noteq> Inr n"
  shows "planLoop q (ms1 @ m # ms2) d st gl tops
           \<lparr>open_list = [st], closed_list = [], expand = [st]\<rparr> \<noteq> Inr r"
proof (cases tops)
  case Nil
  then show ?thesis by simp
next
  case (Cons j js)
  have "\<forall>l. jumpPoints q d [] st gl (ms1 @ m # ms2) \<noteq> Inr l"
    using assms(2) jumpPoints_needs_jump [of q d "[]" st gl ms1 m ms2] by blast
  then obtain e where "jumpPoints q d [] st gl (ms1 @ m # ms2) = Inl e"
    by (cases "jumpPoints q d [] st gl (ms1 @ m # ms2)") auto
  then have "planIter q (ms1 @ m # ms2) d st gl j
               \<lparr>open_list = [st], closed_list = [], expand = [st]\<rparr> = Inl e"
    using assms(1) by (simp add: planIter_def inClosed_def del: jumpPoints.simps)
  then show ?thesis using Cons by simp
qed

lemma freeGrid_fields:
  "nx freeGrid = 5" "ny freeGrid = 5" "ns freeGrid = 25" "node_id (goal freeGrid) = 24"
  "start freeGrid = mkNode 0 0 0 0 0 (- 1)" "goal freeGrid = mkNode 4 4 0 0 24 (- 1)"
  "length (costs freeGrid) = 25"
  by (simp_all add: freeGrid_def ns_def)

lemma freeGrid_blocked:
  "blockedAt freeGrid i = (if 0 \<le> i \<and> i < 25 then Inr False else Inl OutOfBounds)"
proof -
  have r: "replicate 25 (0::8 word) ! nat i = 0" if "0 \<le> i" "i < 25"
    using that by (intro nth_replicate) simp
  show ?thesis by (simp add: blockedAt_def freeGrid_def threshold_def r)
qed

lemma freeGrid_self:
  "freeGrid\<lparr>costs := costs freeGrid, start := start freeGrid, goal := goal freeGrid\<rparr> = freeGrid"
  by simp

lemma narrowGrid_self:
  "narrowGrid\<lparr>costs := costs narrowGrid, start := start narrowGrid, goal := goal narrowGrid\<rparr>
     = narrowGrid"
  by simp

lemma free_east_0: "jump freeGrid (Suc d) (mkNode 0 0 0 0 0 (- 1)) east = Inl OutOfBounds"
  by (simp add: jump_Suc node_eq_def detectForceNeighbor_def forcedPair_def
        grid2Index_def east_def freeGrid_fields freeGrid_blocked)

lemma free_east: "jump freeGrid d (mkNode 0 0 0 0 0 (- 1)) east \<noteq> Inr n"
  by (cases d) (simp_all add: free_east_0)

lemma free_north:
  "jump freeGrid (Suc (Suc (Suc (Suc (Suc d))))) (mkNode 0 0 0 0 0 (- 1)) north = Inr sentinel"
  by (simp add: jump_Suc node_eq_def detectForceNeighbor_def forcedPair_def
        grid2Index_def north_def freeGrid_fields freeGrid_blocked)

text \<open>
  C4: plan is to have exactly two outcomes: found = true with a non-empty path, or
  found = false with the empty path. The code departs from it on grids whose border cells
  are not obstacles, which nothing in plan requires. On the 5x5 grid without obstacles,
  with the start \<open>(0, 0)\<close> and the goal \<open>(4, 4)\<close>, plan has neither outcome whenever the
  motion \<open>(1, 0)\<close> is among the motions: the first expansion jumps east from the start
  to \<open>(1, 0)\<close>, where detectForceNeighbor finds the cell \<open>(1, 1)\<close> free and then reads the
  cost array at the index of \<open>(1, -1)\<close>, which is -4. This is so with the motion
  \<open>(1, 0)\<close> first, and after a jump north that runs to the end of the grid. On the grid
  one cell wide and seven cells high, with the start \<open>(0, 3)\<close> and the goal \<open>(0, 6)\<close>,
  plan has neither outcome whenever the motion \<open>(-1, 1)\<close> is among the motions, whatever
  the recursion depth and the number of iterations allowed: the jump of the first
  expansion never returns. In both cases start and goal are free cells of the grid.
\<close>

theorem plan_without_outcome:
  "(\<forall>r. plan freeGrid (ms1 @ east # ms2) d tops (costs freeGrid) (start freeGrid) (goal freeGrid)
          \<noteq> Inr r) \<and>
   plan freeGrid (east # ms) (Suc d) (j # js) (costs freeGrid) (start freeGrid) (goal freeGrid)
     = Inl OutOfBounds \<and>
   plan freeGrid [north, east] (Suc (Suc (Suc (Suc (Suc d))))) (j # js) (costs freeGrid)
        (start freeGrid) (goal freeGrid)
     = Inl OutOfBounds \<and>
   (\<forall>r. plan narrowGrid (ms1 @ mkNode (- 1) 1 1 0 0 0 # ms2) d tops (costs narrowGrid)
          (start narrowGrid) (goal narrowGrid) \<noteq> Inr r) \<and>
   plan narrowGrid (mkNode (- 1) 1 1 0 0 0 # ms) d (j # js) (costs narrowGrid)
        (start narrowGrid) (goal narrowGrid)
     = Inl OutOfFuel \<and>
   wellFormed freeGrid \<and> unitMotion east \<and> unitMotion north \<and>
   inGrid freeGrid (node_x (start freeGrid)) (node_y (start freeGrid)) \<and>
   inGrid freeGrid (node_x (goal freeGrid)) (node_y (goal freeGrid)) \<and>
   blockedAt freeGrid (node_id (start freeGrid)) = Inr False \<and>
   blockedAt freeGrid (node_id (goal freeGrid)) = Inr False \<and>
   wellFormed narrowGrid \<and> unitMotion (mkNode (- 1) 1 1 0 0 0) \<and>
   inGrid narrowGrid (node_x (start narrowGrid)) (node_y (start narrowGrid)) \<and>
   inGrid narrowGrid (node_x (goal narrowGrid)) (node_y (goal narrowGrid)) \<and>
   blockedAt narrowGrid (node_id (start narrowGrid)) = Inr False \<and>
   blockedAt narrowGrid (node_id (goal narrowGrid)) = Inr False"
proof -
  let ?S = "mkNode 0 0 0 0 0 (- 1)" and ?G = "mkNode 4 4 0 0 24 (- 1)"
  let ?S' = "mkNode 0 3 0 0 3 (- 1)" and ?G' = "mkNode 0 6 0 0 6 (- 1)"
  let ?nw = "mkNode (- 1) 1 1 0 0 0"
  let ?init = "\<lambda>st. \<lparr>open_list = [st], closed_list = [], expand = [st]\<rparr>"
  have sg: "start freeGrid = ?S" "goal freeGrid = ?G"
           "start narrowGrid = ?S'" "goal narrowGrid = ?G'"
    by (simp_all add: freeGrid_fields) (simp_all add: narrowGrid_def)
  have ne: "\<not> node_eq ?S ?G" "\<not> node_eq ?S' ?G'" by (simp_all add: node_eq_def)
  have nn: "jump narrowGrid d ?S' ?nw = Inl OutOfFuel" for d
    by (rule narrow_never_returns) simp
  have a: "\<forall>r. plan freeGrid (ms1 @ east # ms2) d tops (costs freeGrid) (start freeGrid)
                  (goal freeGrid) \<noteq> Inr r"
    unfolding plan_def freeGrid_self unfolding sg
    using planLoop_needs_jump [OF ne(1), of freeGrid d east] free_east by blast
  have b: "plan freeGrid (east # ms) (Suc d) (j # js) (costs freeGrid) (start freeGrid)
             (goal freeGrid) = Inl OutOfBounds"
    unfolding plan_def freeGrid_self unfolding sg
    by (simp add: planIter_def inClosed_def ne free_east_0)
  have c: "plan freeGrid [north, east] (Suc (Suc (Suc (Suc (Suc d))))) (j # js)
             (costs freeGrid) (start freeGrid) (goal freeGrid) = Inl OutOfBounds"
    unfolding plan_def freeGrid_self unfolding sg
    by (simp add: planIter_def inClosed_def ne free_east_0 free_north)
  have e: "\<forall>r. plan narrowGrid (ms1 @ ?nw # ms2) d tops (costs narrowGrid) (start narrowGrid)
                  (goal narrowGrid) \<noteq> Inr r"
    unfolding plan_def narrowGrid_self unfolding sg
    using planLoop_needs_jump [OF ne(2), of narrowGrid d ?nw] nn by simp
  have f: "plan narrowGrid (?nw # ms) d (j # js) (costs narrowGrid) (start narrowGrid)
             (goal narrowGrid) = Inl OutOfFuel"
    unfolding plan_def narrowGrid_self unfolding sg
    by (simp add: planIter_def inClosed_def ne nn)
  have g: "wellFormed freeGrid" "wellFormed narrowGrid"
    by (simp_all add: wellFormed_def freeGrid_fields narrowGrid_fields)
       (simp add: narrowGrid_def)
  have u: "unitMotion east" "unitMotion north" "unitMotion ?nw"
    by (simp_all add: unitMotion_def east_def north_def)
  have i: "inGrid freeGrid (node_x (start freeGrid)) (node_y (start freeGrid))"
          "inGrid freeGrid (node_x (goal freeGrid)) (node_y (goal freeGrid))"
          "inGrid narrowGrid (node_x (start narrowGrid)) (node_y (start narrowGrid))"
          "inGrid narrowGrid (node_x (goal narrowGrid)) (node_y (goal narrowGrid))"
    unfolding sg by (simp_all add: inGrid_def freeGrid_fields narrowGrid_fields)
  have k: "blockedAt freeGrid (node_id (start freeGrid)) = Inr False"
          "blockedAt freeGrid (node_id (goal freeGrid)) = Inr False"
          "blockedAt narrowGrid (node_id (start narrowGrid)) = Inr False"
          "blockedAt narrowGrid (node_id (goal narrowGrid)) = Inr False"
    unfolding sg by (simp_all add: freeGrid_blocked narrowGrid_blocked)
                    (simp add: blockedAt_def narrowGrid_def threshold_def)
  from a b c e f g u i k show ?thesis by (intro conjI)
qed

end
